theory Spec2Isabelle
  imports Main "HOL-Library.Word"
begin

section \<open>The entity model of main.h\<close>

text \<open>
  Pointers are addresses of whole allocated objects; \<open>NULL\<close> is address 0.
  A byte is \<open>uint8_t\<close>/\<open>int8_t\<close>; the tag type is \<open>unsigned char\<close>.
  A string argument (\<open>path\<close>, \<open>key\<close>) is given by the bytes of the array its
  pointer points into; the functions only read it.
\<close>

type_synonym addr = nat
type_synonym byte = "8 word"

abbreviation NULL :: addr where "NULL \<equiv> 0"

definition TagRoot :: byte where "TagRoot = 1"
definition TagNode :: byte where "TagNode = 2"
definition TagLeaf :: byte where "TagLeaf = 3"

text \<open>
  \<open>struct s_node\<close> and \<open>struct s_leaf\<close>. Both structs name their links \<open>west\<close>,
  \<open>east\<close> and \<open>tag\<close>, so the fields carry the prefix \<open>n_\<close> or \<open>l_\<close>.
  \<open>n_path\<close> is the array \<open>uint8_t path[256]\<close>, \<open>l_key\<close> is \<open>int8_t key[128]\<close>,
  \<open>l_value\<close> is the pointer \<open>int8_t *value\<close>, \<open>l_size\<close> is \<open>int16_t size\<close>.
\<close>

record node =
  n_north :: addr
  n_west :: addr
  n_east :: addr
  n_path :: "byte list"
  n_tag :: byte

record leaf =
  l_west :: addr
  l_east :: addr
  l_key :: "byte list"
  l_value :: addr
  l_size :: "16 word"
  l_tag :: byte

text \<open>
  \<open>sizeof(struct s_node)\<close> and \<open>sizeof(struct s_leaf)\<close> under the LP64 layout
  (8-byte pointers): 3 * 8 + 256 + 1 padded to 288, and 8 + 8 + 128 + 8 + 2 + 1
  padded to 160.
\<close>

definition sizeof_node :: nat where "sizeof_node = 288"
definition sizeof_leaf :: nat where "sizeof_leaf = 160"

text \<open>
  What lives at an address: a block fresh from \<open>malloc\<close> whose contents are
  indeterminate (\<open>Raw\<close>, with its size), plain bytes, or a struct that has had a field
  written through a \<open>Node *\<close> or \<open>Leaf *\<close>.
\<close>

datatype obj = Raw nat | Bytes "byte list" | ONode node | OLeaf leaf

text \<open>
  The program state: the heap, the results that the coming \<open>malloc\<close> calls offer
  (\<open>NULL\<close> for a failed allocation), and \<open>errno\<close>.
\<close>

type_synonym memory = "addr \<Rightarrow> obj option"

record state =
  heap :: memory
  offers :: "addr list"
  errno :: int

text \<open>
  A failed \<open>assert\<close> aborts the program; each assertion of the source has its own
  error value. \<open>Fault\<close> is an access the C standard leaves undefined (a dangling or
  mistyped pointer, a read past the end of an object).
  An aborted run keeps the state it had reached.
\<close>

datatype error =
    Assert_zero_ptr
  | Assert_create_node_parent
  | Assert_find_last_parent
  | Assert_find_last_leaf
  | Assert_create_leaf_parent
  | Assert_new_leaf
  | Assert_leaf_value
  | Fault

type_synonym 'a result = "(error \<times> state) + (state \<times> 'a)"
type_synonym stmt = "state \<Rightarrow> (error \<times> state) + state"

text \<open>A straight-line block runs its statements in order and stops at the first abort.\<close>

fun exec :: "stmt list \<Rightarrow> state \<Rightarrow> (error \<times> state) + state" where
  "exec [] s = Inr s"
| "exec (c # cs) s = (case c s of Inl e \<Rightarrow> Inl e | Inr s' \<Rightarrow> exec cs s')"

text \<open>The states a block passes through, one after each statement that completed.\<close>

fun trace :: "stmt list \<Rightarrow> state \<Rightarrow> state list" where
  "trace [] s = []"
| "trace (c # cs) s = (case c s of Inl e \<Rightarrow> [] | Inr s' \<Rightarrow> s' # trace cs s')"

section \<open>Memory access\<close>

definition zero_node :: node where
  "zero_node = \<lparr>n_north = NULL, n_west = NULL, n_east = NULL,
                 n_path = replicate 256 0, n_tag = 0\<rparr>"

definition zero_leaf :: leaf where
  "zero_leaf = \<lparr>l_west = NULL, l_east = NULL, l_key = replicate 128 0,
                 l_value = NULL, l_size = 0, l_tag = 0\<rparr>"

text \<open>
  Reading through a \<open>Node *\<close>: the object is a node, or a zero-filled block of the
  size of a node, which reads as the node with every field zero.
\<close>

fun as_node :: "obj \<Rightarrow> node option" where
  "as_node (ONode n) = Some n"
| "as_node (Bytes bs) = (if bs = replicate sizeof_node 0 then Some zero_node else None)"
| "as_node (OLeaf l) = None"
| "as_node (Raw k) = None"

fun as_leaf :: "obj \<Rightarrow> leaf option" where
  "as_leaf (OLeaf l) = Some l"
| "as_leaf (Bytes bs) = (if bs = replicate sizeof_leaf 0 then Some zero_leaf else None)"
| "as_leaf (ONode n) = None"
| "as_leaf (Raw k) = None"

fun as_bytes :: "obj \<Rightarrow> byte list option" where
  "as_bytes (Bytes bs) = Some bs"
| "as_bytes (ONode n) = None"
| "as_bytes (OLeaf l) = None"
| "as_bytes (Raw k) = None"

definition node_at :: "memory \<Rightarrow> addr \<Rightarrow> node option" where
  "node_at h p =
     (if p = NULL then None
      else case h p of None \<Rightarrow> None | Some ob \<Rightarrow> as_node ob)"

definition leaf_at :: "memory \<Rightarrow> addr \<Rightarrow> leaf option" where
  "leaf_at h p =
     (if p = NULL then None
      else case h p of None \<Rightarrow> None | Some ob \<Rightarrow> as_leaf ob)"

definition bytes_at :: "memory \<Rightarrow> addr \<Rightarrow> byte list option" where
  "bytes_at h p =
     (if p = NULL then None
      else case h p of None \<Rightarrow> None | Some ob \<Rightarrow> as_bytes ob)"

text \<open>A field assignment \<open>p->f = v\<close> through a \<open>Node *\<close> or a \<open>Leaf *\<close>.\<close>

definition upd_node :: "addr \<Rightarrow> (node \<Rightarrow> node) \<Rightarrow> stmt" where
  "upd_node p f s =
     (case node_at (heap s) p of
        None \<Rightarrow> Inl (Fault, s)
      | Some n \<Rightarrow> Inr (s\<lparr>heap := (heap s)(p \<mapsto> ONode (f n))\<rparr>))"

definition upd_leaf :: "addr \<Rightarrow> (leaf \<Rightarrow> leaf) \<Rightarrow> stmt" where
  "upd_leaf p f s =
     (case leaf_at (heap s) p of
        None \<Rightarrow> Inl (Fault, s)
      | Some l \<Rightarrow> Inr (s\<lparr>heap := (heap s)(p \<mapsto> OLeaf (f l))\<rparr>))"

definition set_n_north :: "addr \<Rightarrow> addr \<Rightarrow> stmt" where
  "set_n_north p v = upd_node p (\<lambda>n. n\<lparr>n_north := v\<rparr>)"

definition set_n_west :: "addr \<Rightarrow> addr \<Rightarrow> stmt" where
  "set_n_west p v = upd_node p (\<lambda>n. n\<lparr>n_west := v\<rparr>)"

definition set_n_east :: "addr \<Rightarrow> addr \<Rightarrow> stmt" where
  "set_n_east p v = upd_node p (\<lambda>n. n\<lparr>n_east := v\<rparr>)"

definition set_n_tag :: "addr \<Rightarrow> byte \<Rightarrow> stmt" where
  "set_n_tag p v = upd_node p (\<lambda>n. n\<lparr>n_tag := v\<rparr>)"

definition set_l_west :: "addr \<Rightarrow> addr \<Rightarrow> stmt" where
  "set_l_west p v = upd_leaf p (\<lambda>l. l\<lparr>l_west := v\<rparr>)"

definition set_l_east :: "addr \<Rightarrow> addr \<Rightarrow> stmt" where
  "set_l_east p v = upd_leaf p (\<lambda>l. l\<lparr>l_east := v\<rparr>)"

definition set_l_tag :: "addr \<Rightarrow> byte \<Rightarrow> stmt" where
  "set_l_tag p v = upd_leaf p (\<lambda>l. l\<lparr>l_tag := v\<rparr>)"

definition set_l_value :: "addr \<Rightarrow> addr \<Rightarrow> stmt" where
  "set_l_value p v = upd_leaf p (\<lambda>l. l\<lparr>l_value := v\<rparr>)"

definition set_l_size :: "addr \<Rightarrow> 16 word \<Rightarrow> stmt" where
  "set_l_size p v = upd_leaf p (\<lambda>l. l\<lparr>l_size := v\<rparr>)"

section \<open>The C library\<close>

text \<open>
  \<open>malloc(size)\<close> takes the next of the offers. It returns \<open>NULL\<close> when the
  offers have run out, when the offer is \<open>NULL\<close>, and when the offered address is in
  use (the result of a successful \<open>malloc\<close> is distinct from every live object);
  otherwise the offered address now holds a block of indeterminate contents. That a
  failing \<open>malloc\<close> sets \<open>errno\<close> is left out: the program reads \<open>errno\<close> only in
  \<open>perror\<close>, which writes to the console.
\<close>

definition malloc :: "state \<Rightarrow> nat \<Rightarrow> state \<times> addr" where
  "malloc s sz =
     (case offers s of
        [] \<Rightarrow> (s, NULL)
      | a # rest \<Rightarrow>
          if a = NULL \<or> heap s a \<noteq> None then (s\<lparr>offers := rest\<rparr>, NULL)
          else (s\<lparr>heap := (heap s)(a \<mapsto> Raw sz), offers := rest\<rparr>, a))"

definition obj_size :: "obj \<Rightarrow> nat" where
  "obj_size ob =
     (case ob of Raw n \<Rightarrow> n | Bytes bs \<Rightarrow> length bs
               | ONode n \<Rightarrow> sizeof_node | OLeaf l \<Rightarrow> sizeof_leaf)"

text \<open>
  \<open>strncpy(dst, src, n)\<close> reads \<open>src\<close> up to its first NUL or up to \<open>n\<close> bytes and
  pads the result with NUL bytes to exactly \<open>n\<close>. \<open>src\<close> is the byte array the
  pointer points into; running off its end before a NUL or the \<open>n\<close>-th byte is a
  fault (\<open>None\<close>).
\<close>

fun strncpy_bytes :: "byte list \<Rightarrow> nat \<Rightarrow> byte list option" where
  "strncpy_bytes bs 0 = Some []"
| "strncpy_bytes [] (Suc n) = None"
| "strncpy_bytes (b # bs) (Suc n) =
     (if b = 0 then Some (replicate (Suc n) 0)
      else map_option ((#) b) (strncpy_bytes bs n))"

text \<open>The C string held in a byte array: the bytes before its first NUL.\<close>

definition cstring :: "byte list \<Rightarrow> byte list option" where
  "cstring bs = (if 0 \<in> set bs then Some (takeWhile (\<lambda>b. b \<noteq> 0) bs) else None)"

section \<open>main.c: zero\<close>

text \<open>
  \<open>zero(ptr, size)\<close>: the assertion \<open>ptr != NULL\<close>, then \<open>memset(ptr, 0, size)\<close>.
  Every call of the source zeroes a whole block, and only that is modelled: a size
  other than the size of the object at \<open>ptr\<close> is a fault.
\<close>

definition zero :: "addr \<Rightarrow> nat \<Rightarrow> stmt" where
  "zero ptr sz s =
     (if ptr = NULL then Inl (Assert_zero_ptr, s)
      else case heap s ptr of
             None \<Rightarrow> Inl (Fault, s)
           | Some ob \<Rightarrow>
               if sz = obj_size ob
               then Inr (s\<lparr>heap := (heap s)(ptr \<mapsto> Bytes (replicate sz 0))\<rparr>)
               else Inl (Fault, s))"

section \<open>main.c: create\_node\<close>

text \<open>
  \<open>snprintf((char *)node->path, sizeof(node->path), "%s", (char *)path)\<close>: at most
  \<open>size - 1\<close> bytes of the C string and a terminating NUL are written at the start of
  the array; \<open>path\<close> must hold a NUL-terminated string.
\<close>

definition snprintf_path :: "addr \<Rightarrow> nat \<Rightarrow> byte list \<Rightarrow> stmt" where
  "snprintf_path p sz src s =
     (case node_at (heap s) p of
        None \<Rightarrow> Inl (Fault, s)
      | Some n \<Rightarrow>
          (case cstring src of
             None \<Rightarrow> Inl (Fault, s)
           | Some str \<Rightarrow>
               if sz = 0 then Inr s
               else if length (n_path n) < sz then Inl (Fault, s)
               else Inr (s\<lparr>heap := (heap s)(p \<mapsto> ONode
                      (n\<lparr>n_path := take (sz - 1) str @ [0]
                               @ drop (Suc (length (take (sz - 1) str))) (n_path n)\<rparr>))\<rparr>)))"

text \<open>
  The statements of \<open>create_node\<close> after the allocation succeeded (the \<open>printf\<close>
  calls write to the console only and are left out).
\<close>

definition create_node_body :: "addr \<Rightarrow> addr \<Rightarrow> byte list \<Rightarrow> stmt list" where
  "create_node_body parent node path =
     [zero node sizeof_node,
      set_n_west parent node,
      set_n_tag node TagNode,
      set_n_north node parent,
      set_n_east node NULL,
      snprintf_path node 256 path]"

definition create_node :: "state \<Rightarrow> addr \<Rightarrow> byte list \<Rightarrow> addr result" where
  "create_node s parent path =
     (if parent = NULL then Inl (Assert_create_node_parent, s)
      else case malloc s sizeof_node of
             (s1, node) \<Rightarrow>
               if node = NULL then Inr (s1, NULL)
               else (case exec (create_node_body parent node path) s1 of
                       Inl e \<Rightarrow> Inl e
                     | Inr s2 \<Rightarrow> Inr (s2, node)))"

section \<open>main.c: find\_last\_linear\<close>

text \<open>
  Modelled from the spec: the constant \<open>NoError\<close> is not in the sources; the comment
  at its use says that it is 0 (\<open>Set errno to NoError (0)\<close>).
\<close>

definition NoError :: int where "NoError = 0"

text \<open>
  Modelled from the spec: the macro \<open>reterr\<close> is not in the sources; the comment at
  the call says that \<open>reterr(NoError)\<close> sets \<open>errno\<close> and returns \<open>NULL\<close>, and the
  spec that the scan of an empty chain returns an empty result.
\<close>

definition reterr :: "state \<Rightarrow> int \<Rightarrow> addr result" where
  "reterr s e = Inr (s\<lparr>errno := e\<rparr>, NULL)"

text \<open>
  The \<open>while (current_leaf->east != NULL)\<close> loop. On a chain that runs in a cycle
  it never returns: the value \<open>None\<close>.
\<close>

partial_function (option) find_last_loop :: "state \<Rightarrow> addr \<Rightarrow> ((error \<times> state) + addr) option" where
  "find_last_loop s current_leaf =
     (case leaf_at (heap s) current_leaf of
        None \<Rightarrow> Some (Inl (Fault, s))
      | Some l \<Rightarrow>
          if l_east l \<noteq> NULL
          then (if current_leaf = NULL then Some (Inl (Assert_find_last_leaf, s))
                else find_last_loop s (l_east l))
          else Some (Inr current_leaf))"

declare find_last_loop.simps [code]

definition find_last_linear :: "state \<Rightarrow> addr \<Rightarrow> addr result option" where
  "find_last_linear s parent =
     (if parent = NULL then Some (Inl (Assert_find_last_parent, s))
      else case node_at (heap s) parent of
             None \<Rightarrow> Some (Inl (Fault, s))
           | Some n \<Rightarrow>
               if n_east n = NULL then Some (reterr s NoError)
               else (case find_last_loop s (n_east n) of
                       None \<Rightarrow> None
                     | Some (Inl e) \<Rightarrow> Some (Inl e)
                     | Some (Inr current_leaf) \<Rightarrow> Some (Inr (s, current_leaf))))"

text \<open>
  Modelled from the spec: \<open>create_leaf\<close> calls \<open>find_last\<close>, which the sources do
  not define; the spec says that the append locates the current chain tail with the
  linear scan, so \<open>find_last\<close> is \<open>find_last_linear\<close>.
\<close>

definition find_last :: "state \<Rightarrow> addr \<Rightarrow> addr result option" where
  "find_last s parent = find_last_linear s parent"

section \<open>main.c: create\_leaf\<close>

definition assert_new_leaf :: "addr \<Rightarrow> stmt" where
  "assert_new_leaf new_leaf s = (if new_leaf = NULL then Inl (Assert_new_leaf, s) else Inr s)"

text \<open>\<open>strncpy((char *)new_leaf->key, (char *)key, 127)\<close>.\<close>

definition strncpy_key :: "addr \<Rightarrow> byte list \<Rightarrow> nat \<Rightarrow> stmt" where
  "strncpy_key p src n s =
     (case leaf_at (heap s) p of
        None \<Rightarrow> Inl (Fault, s)
      | Some l \<Rightarrow>
          if length (l_key l) < n then Inl (Fault, s)
          else (case strncpy_bytes src n of
                  None \<Rightarrow> Inl (Fault, s)
                | Some bs \<Rightarrow>
                    Inr (s\<lparr>heap := (heap s)(p \<mapsto> OLeaf (l\<lparr>l_key := bs @ drop n (l_key l)\<rparr>))\<rparr>)))"

text \<open>\<open>zero(new_leaf->value, count)\<close>.\<close>

definition zero_value :: "addr \<Rightarrow> nat \<Rightarrow> stmt" where
  "zero_value p sz s =
     (case leaf_at (heap s) p of
        None \<Rightarrow> Inl (Fault, s)
      | Some l \<Rightarrow> zero (l_value l) sz s)"

text \<open>\<open>assert(new_leaf->value)\<close>.\<close>

definition assert_value :: "addr \<Rightarrow> stmt" where
  "assert_value p s =
     (case leaf_at (heap s) p of
        None \<Rightarrow> Inl (Fault, s)
      | Some l \<Rightarrow> if l_value l = NULL then Inl (Assert_leaf_value, s) else Inr s)"

text \<open>
  \<open>strncpy((char *)new_leaf->value, (char *)value, count)\<close>. The parameter
  \<open>value\<close> is a \<open>uint8_t\<close>; the cast makes the number an address, and the copy
  reads the bytes that live there. Where no byte array lives the readable range is
  empty, so that any read is a fault; copying a block onto itself is a fault too.
\<close>

definition strncpy_value :: "addr \<Rightarrow> byte \<Rightarrow> nat \<Rightarrow> stmt" where
  "strncpy_value p value n s =
     (case leaf_at (heap s) p of
        None \<Rightarrow> Inl (Fault, s)
      | Some l \<Rightarrow>
          (case bytes_at (heap s) (l_value l) of
             None \<Rightarrow> Inl (Fault, s)
           | Some dst \<Rightarrow>
               if length dst < n \<or> (n \<noteq> 0 \<and> unat value = l_value l) then Inl (Fault, s)
               else (case strncpy_bytes (case bytes_at (heap s) (unat value) of
                                            None \<Rightarrow> [] | Some src \<Rightarrow> src) n of
                       None \<Rightarrow> Inl (Fault, s)
                     | Some bs \<Rightarrow>
                         Inr (s\<lparr>heap := (heap s)(l_value l \<mapsto> Bytes (bs @ drop n dst))\<rparr>))))"

text \<open>
  The statements from the check of the record allocation to the copy of the key, and
  those after the allocation of the value buffer. \<open>leaf\<close> is the result of
  \<open>find_last\<close>, \<open>new_leaf\<close> and \<open>buf\<close> are the results of the two \<open>malloc\<close>
  calls.
\<close>

definition create_leaf_link :: "addr \<Rightarrow> addr \<Rightarrow> addr \<Rightarrow> byte list \<Rightarrow> stmt list" where
  "create_leaf_link parent leaf new_leaf key =
     [assert_new_leaf new_leaf,
      (if leaf = NULL then set_n_east parent new_leaf else set_l_east leaf new_leaf),
      zero new_leaf sizeof_leaf,
      set_l_tag new_leaf TagLeaf,
      (if leaf = NULL then set_l_west new_leaf parent else set_l_west new_leaf leaf),
      strncpy_key new_leaf key 127]"

definition create_leaf_value :: "addr \<Rightarrow> addr \<Rightarrow> 16 word \<Rightarrow> byte \<Rightarrow> stmt list" where
  "create_leaf_value new_leaf buf count value =
     [set_l_value new_leaf buf,
      zero_value new_leaf (unat count),
      assert_value new_leaf,
      strncpy_value new_leaf value (unat count),
      set_l_size new_leaf count]"

definition create_leaf :: "state \<Rightarrow> addr \<Rightarrow> byte list \<Rightarrow> 16 word \<Rightarrow> byte \<Rightarrow> addr result option" where
  "create_leaf s parent key count value =
     (if parent = NULL then Some (Inl (Assert_create_leaf_parent, s))
      else case find_last s parent of
             None \<Rightarrow> None
           | Some (Inl e) \<Rightarrow> Some (Inl e)
           | Some (Inr (s0, leaf)) \<Rightarrow>
               (case malloc s0 sizeof_leaf of
                  (s1, new_leaf) \<Rightarrow>
                    (case exec (create_leaf_link parent leaf new_leaf key) s1 of
                       Inl e \<Rightarrow> Some (Inl e)
                     | Inr s2 \<Rightarrow>
                         (case malloc s2 (unat count) of
                            (s3, buf) \<Rightarrow>
                              (case exec (create_leaf_value new_leaf buf count value) s3 of
                                 Inl e \<Rightarrow> Some (Inl e)
                               | Inr s4 \<Rightarrow> Some (Inr (s4, leaf)))))))"

section \<open>Notions used to state the properties\<close>

text \<open>
  \<open>chain h a rs\<close>: following the sibling links from \<open>a\<close> passes exactly the
  records \<open>rs\<close>, in that order, and then reaches \<open>NULL\<close>. A list is finite, so a
  chain that has a list is finite and NULL-terminated.
\<close>

fun chain :: "memory \<Rightarrow> addr \<Rightarrow> addr list \<Rightarrow> bool" where
  "chain h a [] = (a = NULL)"
| "chain h a (r # rs) =
     (a = r \<and> r \<noteq> NULL \<and>
      (case leaf_at h r of None \<Rightarrow> False | Some l \<Rightarrow> chain h (l_east l) rs))"

text \<open>The address that the next \<open>malloc\<close> returns if it succeeds.\<close>

definition next_offer :: "state \<Rightarrow> addr" where
  "next_offer s = (case offers s of [] \<Rightarrow> NULL | a # rest \<Rightarrow> a)"

text \<open>
  Reading one field of an entity through a pointer: \<open>p->west\<close>, \<open>p->east\<close> and
  \<open>p->tag\<close> of a node, \<open>r->east\<close>, \<open>r->tag\<close> and \<open>r->value\<close> of a leaf. The
  result is \<open>None\<close> where the pointer does not point to such an entity (a block fresh
  from \<open>malloc\<close> has no readable field yet).
\<close>

definition child_link :: "addr \<Rightarrow> state \<Rightarrow> addr option" where
  "child_link p s = map_option n_west (node_at (heap s) p)"

definition leaf_chain_head :: "addr \<Rightarrow> state \<Rightarrow> addr option" where
  "leaf_chain_head p s = map_option n_east (node_at (heap s) p)"

definition node_tag :: "addr \<Rightarrow> state \<Rightarrow> byte option" where
  "node_tag p s = map_option n_tag (node_at (heap s) p)"

definition sibling_link :: "addr \<Rightarrow> state \<Rightarrow> addr option" where
  "sibling_link r s = map_option l_east (leaf_at (heap s) r)"

definition leaf_tag :: "addr \<Rightarrow> state \<Rightarrow> byte option" where
  "leaf_tag r s = map_option l_tag (leaf_at (heap s) r)"

definition value_pointer :: "addr \<Rightarrow> state \<Rightarrow> addr option" where
  "value_pointer r s = map_option l_value (leaf_at (heap s) r)"

text \<open>How a call ended, and the state it ended in.\<close>

fun failure :: "'a result option \<Rightarrow> error option" where
  "failure None = None"
| "failure (Some (Inl (e, t))) = Some e"
| "failure (Some (Inr (t, r))) = None"

fun final_state :: "'a result option \<Rightarrow> state option" where
  "final_state None = None"
| "final_state (Some (Inl (e, t))) = Some t"
| "final_state (Some (Inr (t, r))) = Some t"

text \<open>
  \<open>reach h p q\<close>: \<open>q\<close> can be reached from \<open>p\<close> along the links of the
  entities (\<open>north\<close>, \<open>west\<close>, \<open>east\<close> of a node, \<open>west\<close> and \<open>east\<close> of a
  leaf).
\<close>

inductive reach :: "memory \<Rightarrow> addr \<Rightarrow> addr \<Rightarrow> bool" for h :: memory and p :: addr where
  reach_self: "reach h p p"
| reach_north: "reach h p q \<Longrightarrow> node_at h q = Some n \<Longrightarrow> n_north n \<noteq> NULL \<Longrightarrow> reach h p (n_north n)"
| reach_west: "reach h p q \<Longrightarrow> node_at h q = Some n \<Longrightarrow> n_west n \<noteq> NULL \<Longrightarrow> reach h p (n_west n)"
| reach_east: "reach h p q \<Longrightarrow> node_at h q = Some n \<Longrightarrow> n_east n \<noteq> NULL \<Longrightarrow> reach h p (n_east n)"
| reach_back: "reach h p q \<Longrightarrow> leaf_at h q = Some l \<Longrightarrow> l_west l \<noteq> NULL \<Longrightarrow> reach h p (l_west l)"
| reach_sibling: "reach h p q \<Longrightarrow> leaf_at h q = Some l \<Longrightarrow> l_east l \<noteq> NULL \<Longrightarrow> reach h p (l_east l)"

code_pred reach .

section \<open>The program of main.c up to its calls\<close>

text \<open>
  \<open>main\<close> initialises the global \<open>root\<close> (static storage, so zero-filled) with
  the tag \<open>TagRoot\<close>, empty links and the empty path. \<open>root_init as\<close> is the
  state after that, with \<open>as\<close> the results the allocator will offer.
\<close>

definition root_addr :: addr where "root_addr = 1000"

definition root_node :: node where
  "root_node = \<lparr>n_north = NULL, n_west = NULL, n_east = NULL,
                 n_path = replicate 256 0, n_tag = TagRoot\<rparr>"

definition root_init :: "addr list \<Rightarrow> state" where
  "root_init as = \<lparr>heap = Map.empty(root_addr \<mapsto> ONode root_node), offers = as, errno = 0\<rparr>"

text \<open>
  A container with two records: the root with the chain 2000, 3000; \<open>as\<close> are the
  results the allocator will offer.
\<close>

definition plain_leaf :: "addr \<Rightarrow> addr \<Rightarrow> leaf" where
  "plain_leaf w e = \<lparr>l_west = w, l_east = e, l_key = replicate 128 0,
                     l_value = NULL, l_size = 0, l_tag = TagLeaf\<rparr>"

definition two_leaves :: "addr list \<Rightarrow> state" where
  "two_leaves as =
     \<lparr>heap = Map.empty(root_addr \<mapsto> ONode (root_node\<lparr>n_east := 2000\<rparr>),
                        2000 \<mapsto> OLeaf (plain_leaf root_addr 3000),
                        3000 \<mapsto> OLeaf (plain_leaf 2000 NULL)),
      offers = as, errno = 0\<rparr>"

section \<open>Memory and statements: basic facts\<close>

lemma sizeof_neq [simp]: "sizeof_node \<noteq> sizeof_leaf" "sizeof_leaf \<noteq> sizeof_node"
  by (simp_all add: sizeof_node_def sizeof_leaf_def)

lemma views_NULL [simp]: "node_at h NULL = None" "leaf_at h NULL = None" "bytes_at h NULL = None"
  by (simp_all add: node_at_def leaf_at_def bytes_at_def)

lemma node_at_upd [simp]:
  "node_at (h(p \<mapsto> ob)) q =
     (if q = p then (if p = NULL then None else as_node ob) else node_at h q)"
  by (simp add: node_at_def)

lemma leaf_at_upd [simp]:
  "leaf_at (h(p \<mapsto> ob)) q =
     (if q = p then (if p = NULL then None else as_leaf ob) else leaf_at h q)"
  by (simp add: leaf_at_def)

lemma bytes_at_upd [simp]:
  "bytes_at (h(p \<mapsto> ob)) q =
     (if q = p then (if p = NULL then None else as_bytes ob) else bytes_at h q)"
  by (simp add: bytes_at_def)

lemma node_at_heap: "node_at h p = Some n \<Longrightarrow> p \<noteq> NULL \<and> h p \<noteq> None"
  by (auto simp: node_at_def split: if_splits option.splits)

lemma leaf_at_heap: "leaf_at h p = Some l \<Longrightarrow> p \<noteq> NULL \<and> h p \<noteq> None"
  by (auto simp: leaf_at_def split: if_splits option.splits)

lemma node_not_leaf: "node_at h p = Some n \<Longrightarrow> leaf_at h p = None"
  by (cases "h p"; cases "the (h p)") (auto simp: node_at_def leaf_at_def split: if_splits)

lemma views_agree:
  "h' q = h q \<Longrightarrow> node_at h' q = node_at h q \<and> leaf_at h' q = leaf_at h q \<and> bytes_at h' q = bytes_at h q"
  by (simp add: node_at_def leaf_at_def bytes_at_def)

lemmas stmt_defs = zero_def obj_size_def upd_node_def upd_leaf_def
  set_n_west_def set_n_tag_def set_n_north_def set_n_east_def
  set_l_west_def set_l_east_def set_l_tag_def set_l_value_def set_l_size_def
  snprintf_path_def assert_new_leaf_def strncpy_key_def zero_value_def assert_value_def
  strncpy_value_def

lemma malloc_cases:
  assumes "malloc s sz = (s', a)"
  shows "(a = NULL \<and> heap s' = heap s \<and> errno s' = errno s) \<or>
         (a \<noteq> NULL \<and> heap s a = None \<and>
          (\<exists>rest. offers s = a # rest \<and>
                  s' = s\<lparr>heap := (heap s)(a \<mapsto> Raw sz), offers := rest\<rparr>))"
  using assms by (auto simp: malloc_def split: list.splits if_splits)

lemma malloc_size: "snd (malloc s sz) = NULL \<longleftrightarrow> snd (malloc s sz') = NULL"
  by (auto simp: malloc_def split: list.splits)

subsection \<open>The string functions\<close>

lemma strncpy_bytes_length: "strncpy_bytes src n = Some bs \<Longrightarrow> length bs = n"
  by (induction src n arbitrary: bs rule: strncpy_bytes.induct) (auto split: if_splits)

lemma strncpy_bytes_content:
  "strncpy_bytes src n = Some bs \<Longrightarrow>
     takeWhile (\<lambda>b. b \<noteq> 0) (bs @ [0]) = take n (takeWhile (\<lambda>b. b \<noteq> 0) src)"
  by (induction src n arbitrary: bs rule: strncpy_bytes.induct) (auto split: if_splits)

lemma strncpy_bytes_terminated: "0 \<in> set src \<Longrightarrow> strncpy_bytes src n \<noteq> None"
  by (induction src n rule: strncpy_bytes.induct) auto

lemma strncpy_bytes_long: "n \<le> length src \<Longrightarrow> strncpy_bytes src n \<noteq> None"
  by (induction src n rule: strncpy_bytes.induct) auto

subsection \<open>Chains\<close>

lemma chain_NULL [simp]: "chain h NULL rs \<longleftrightarrow> rs = []"
  by (cases rs) auto

lemma chain_nonnull: "chain h a rs \<Longrightarrow> rs \<noteq> [] \<Longrightarrow> a \<noteq> NULL"
  by (cases rs) auto

lemma chain_unique: "chain h a rs \<Longrightarrow> chain h a rs' \<Longrightarrow> rs = rs'"
proof (induction rs arbitrary: a rs')
  case Nil
  then show ?case by simp
next
  case (Cons r rs)
  then obtain l where l: "a = r" "r \<noteq> NULL" "leaf_at h r = Some l" "chain h (l_east l) rs"
    by (auto split: option.splits)
  with Cons.prems(2) obtain rs'' where "rs' = r # rs''" "chain h (l_east l) rs''"
    by (cases rs') auto
  with Cons.IH[OF l(4)] show ?case by simp
qed

lemma chain_suffix: "chain h a (xs @ ys) \<Longrightarrow> ys \<noteq> [] \<Longrightarrow> chain h (hd ys) ys"
proof (induction xs arbitrary: a)
  case Nil
  then show ?case by (cases ys) auto
next
  case (Cons x xs)
  then show ?case by (auto split: option.splits)
qed

lemma chain_distinct: "chain h a rs \<Longrightarrow> distinct rs"
proof (induction rs arbitrary: a)
  case Nil
  then show ?case by simp
next
  case (Cons r rs)
  then obtain l where l: "a = r" "r \<noteq> NULL" "leaf_at h r = Some l" "chain h (l_east l) rs"
    by (auto split: option.splits)
  have "r \<notin> set rs"
  proof
    assume "r \<in> set rs"
    then obtain xs ys where rs: "rs = xs @ r # ys" by (auto dest: split_list)
    with l(4) have "chain h r (r # ys)" using chain_suffix[of h "l_east l" xs "r # ys"] by simp
    moreover have "chain h r (r # rs)" using Cons.prems l by simp
    ultimately have "r # ys = r # rs" by (rule chain_unique)
    with rs show False by simp
  qed
  with Cons.IH[OF l(4)] show ?case by simp
qed

lemma chain_leaf: "chain h a rs \<Longrightarrow> r \<in> set rs \<Longrightarrow> r \<noteq> NULL \<and> leaf_at h r \<noteq> None"
  by (induction rs arbitrary: a) (auto split: option.splits)

lemma chain_last: "chain h a rs \<Longrightarrow> rs \<noteq> [] \<Longrightarrow> \<exists>l. leaf_at h (last rs) = Some l \<and> l_east l = NULL"
  by (induction rs arbitrary: a) (auto split: option.splits)

lemma chain_inner:
  "chain h a rs \<Longrightarrow> r \<in> set rs \<Longrightarrow> r \<noteq> last rs \<Longrightarrow> \<exists>l. leaf_at h r = Some l \<and> l_east l \<noteq> NULL"
proof (induction rs arbitrary: a)
  case Nil
  then show ?case by simp
next
  case (Cons x rs)
  then obtain l where l: "a = x" "x \<noteq> NULL" "leaf_at h x = Some l" "chain h (l_east l) rs"
    by (auto split: option.splits)
  show ?case
  proof (cases "r = x")
    case True
    with Cons.prems have "rs \<noteq> []" by auto
    with l(4) have "l_east l \<noteq> NULL" by (rule chain_nonnull)
    with l True show ?thesis by simp
  next
    case False
    with Cons.prems have "r \<in> set rs" "r \<noteq> last rs" by (auto split: if_splits)
    from Cons.IH[OF l(4) this] show ?thesis .
  qed
qed

lemma chain_frame:
  "\<forall>r\<in>set rs. leaf_at h' r = leaf_at h r \<Longrightarrow> chain h' a rs = chain h a rs"
  by (induction rs arbitrary: a) (auto split: option.splits)

lemma chain_snoc:
  assumes "chain h a rs" "rs \<noteq> []" "leaf_at h (last rs) = Some old"
    "leaf_at h' (last rs) = Some (old\<lparr>l_east := new\<rparr>)"
    "new \<noteq> NULL" "new \<notin> set rs" "leaf_at h' new = Some nl" "l_east nl = NULL"
    "\<forall>r\<in>set rs. r \<noteq> last rs \<longrightarrow> leaf_at h' r = leaf_at h r"
  shows "chain h' a (rs @ [new])"
  using assms
proof (induction rs arbitrary: a)
  case Nil
  then show ?case by simp
next
  case (Cons r rs)
  from Cons.prems(1) obtain l where l: "a = r" "r \<noteq> NULL" "leaf_at h r = Some l" "chain h (l_east l) rs"
    by (auto split: option.splits)
  show ?case
  proof (cases "rs = []")
    case True
    with Cons.prems l show ?thesis by simp
  next
    case False
    have "distinct (r # rs)" using Cons.prems(1) by (rule chain_distinct)
    with False have ne: "r \<noteq> last rs" by auto
    with Cons.prems(9) False have same: "leaf_at h' r = Some l" using l by simp
    have "chain h' (l_east l) (rs @ [new])"
      using Cons.IH[OF l(4) False] Cons.prems False by simp
    with same l show ?thesis by simp
  qed
qed

subsection \<open>find\_last\_linear\<close>

lemma find_last_loop_chain:
  "chain (heap s) a rs \<Longrightarrow> rs \<noteq> [] \<Longrightarrow> find_last_loop s a = Some (Inr (last rs))"
proof (induction rs arbitrary: a)
  case Nil
  then show ?case by simp
next
  case (Cons r rs)
  then obtain l where l: "a = r" "r \<noteq> NULL" "leaf_at (heap s) r = Some l" "chain (heap s) (l_east l) rs"
    by (auto split: option.splits)
  show ?case
  proof (cases rs)
    case Nil
    with l show ?thesis by (subst find_last_loop.simps) simp
  next
    case (Cons r' rs')
    with l have "l_east l \<noteq> NULL" by auto
    moreover have "find_last_loop s (l_east l) = Some (Inr (last rs))"
      using Cons.IH[OF l(4)] Cons by simp
    ultimately show ?thesis using l Cons by (subst find_last_loop.simps) simp
  qed
qed

lemma find_last_linear_chain:
  assumes "node_at (heap s) parent = Some pn" "chain (heap s) (n_east pn) rs"
  shows "find_last_linear s parent =
           Some (if rs = [] then reterr s NoError else Inr (s, last rs))"
proof (cases "rs = []")
  case True
  with assms node_at_heap[OF assms(1)] show ?thesis by (simp add: find_last_linear_def)
next
  case False
  with assms(2) have "n_east pn \<noteq> NULL" by (rule chain_nonnull)
  with assms node_at_heap[OF assms(1)] False find_last_loop_chain[OF assms(2) False]
  show ?thesis by (simp add: find_last_linear_def)
qed

lemma find_last_loop_result:
  assumes "find_last_loop s a = Some y"
  shows "case y of Inl (e, t) \<Rightarrow> e = Fault \<and> t = s
            | Inr r \<Rightarrow> \<exists>rs. chain (heap s) a rs \<and> rs \<noteq> [] \<and> last rs = r"
proof -
  define P where "P = (\<lambda>(s::state) (a::addr) (y::(error \<times> state) + addr).
     case y of Inl (e, t) \<Rightarrow> e = Fault \<and> t = s
            | Inr r \<Rightarrow> \<exists>rs. chain (heap s) a rs \<and> rs \<noteq> [] \<and> last rs = r)"
  have "P s a y"
  proof (rule find_last_loop.raw_induct[where P = P])
    show "find_last_loop s a = Some y" by fact
  next
    fix f and s :: state and a :: addr and y
    assume IH: "\<And>s a y. f s a = Some y \<Longrightarrow> P s a y"
      and body: "(case leaf_at (heap s) a of None \<Rightarrow> Some (Inl (Fault, s))
        | Some l \<Rightarrow>
            if l_east l \<noteq> NULL
            then if a = NULL
                 then Some (Inl (Assert_find_last_leaf, s))
                 else f s (l_east l)
            else Some (Inr a)) = Some y"
    show "P s a y"
    proof (cases "leaf_at (heap s) a")
      case None
      with body show ?thesis by (auto simp: P_def)
    next
      case (Some l)
      have a0: "a \<noteq> NULL" using Some by (auto simp: leaf_at_def split: if_splits)
      show ?thesis
      proof (cases "l_east l = NULL")
        case True
        with body Some have "y = Inr a" by simp
        moreover have "chain (heap s) a [a]" using Some True a0 by simp
        ultimately show ?thesis unfolding P_def by (auto intro!: exI[of _ "[a]"])
      next
        case False
        with body Some a0 have f: "f s (l_east l) = Some y" by simp
        show ?thesis
        proof (cases y)
          case (Inl x)
          with IH[OF f] show ?thesis by (auto simp: P_def)
        next
          case (Inr r)
          with IH[OF f] obtain rs where "chain (heap s) (l_east l) rs" "rs \<noteq> []" "last rs = r"
            by (auto simp: P_def)
          then have "chain (heap s) a (a # rs) \<and> a # rs \<noteq> [] \<and> last (a # rs) = r"
            using Some a0 by simp
          then show ?thesis unfolding P_def using Inr by (auto intro: exI[of _ "a # rs"])
        qed
      qed
    qed
  qed
  then show ?thesis by (simp add: P_def)
qed

lemma find_last_linear_Inr:
  assumes "find_last_linear s parent = Some (Inr (s0, leaf))"
  shows "\<exists>pn rs. parent \<noteq> NULL \<and> node_at (heap s) parent = Some pn \<and>
           chain (heap s) (n_east pn) rs \<and> leaf = (if rs = [] then NULL else last rs) \<and>
           heap s0 = heap s \<and> offers s0 = offers s"
proof -
  from assms have p: "parent \<noteq> NULL"
    by (auto simp: find_last_linear_def split: if_splits)
  with assms obtain pn where pn: "node_at (heap s) parent = Some pn"
    by (auto simp: find_last_linear_def split: option.splits)
  show ?thesis
  proof (cases "n_east pn = NULL")
    case True
    with assms p pn have "leaf = NULL" "heap s0 = heap s" "offers s0 = offers s"
      by (auto simp: find_last_linear_def reterr_def)
    with p pn True show ?thesis by (intro exI[of _ pn] exI[of _ "[]"]) simp
  next
    case False
    with assms p pn have loop: "find_last_loop s (n_east pn) = Some (Inr leaf)" and "s0 = s"
      by (auto simp: find_last_linear_def split: option.splits sum.splits)
    from find_last_loop_result[OF loop] obtain rs where
      "chain (heap s) (n_east pn) rs" "rs \<noteq> []" "last rs = leaf" by auto
    with p pn \<open>s0 = s\<close> show ?thesis by (intro exI[of _ pn] exI[of _ rs]) simp
  qed
qed

section \<open>The chain tail\<close>

text \<open>
  C9. For a container whose sibling chain is finite and NULL-terminated (it has a list
  \<open>rs\<close> of records), \<open>find_last_linear\<close> returns \<open>NULL\<close> when the container's
  leaf chain head is \<open>NULL\<close>, and otherwise returns the last record of the chain, which
  is the only record of the chain whose sibling link is \<open>NULL\<close>.
\<close>

theorem find_last_linear_returns_tail:
  assumes "node_at (heap s) parent = Some pn" "chain (heap s) (n_east pn) rs"
  shows "(n_east pn = NULL \<longrightarrow>
            find_last_linear s parent = Some (Inr (s\<lparr>errno := NoError\<rparr>, NULL))) \<and>
         (n_east pn \<noteq> NULL \<longrightarrow>
            rs \<noteq> [] \<and> find_last_linear s parent = Some (Inr (s, last rs)) \<and>
            (\<forall>r\<in>set rs. \<exists>l. leaf_at (heap s) r = Some l \<and>
                               (l_east l = NULL \<longleftrightarrow> r = last rs)))"
proof (cases "n_east pn = NULL")
  case True
  with assms(2) have "rs = []" by simp
  with True find_last_linear_chain[OF assms] show ?thesis by (simp add: reterr_def)
next
  case False
  with assms(2) have ne: "rs \<noteq> []" by auto
  have "\<exists>l. leaf_at (heap s) r = Some l \<and> (l_east l = NULL \<longleftrightarrow> r = last rs)"
    if "r \<in> set rs" for r
  proof (cases "r = last rs")
    case True
    with chain_last[OF assms(2) ne] show ?thesis by auto
  next
    case False
    with chain_inner[OF assms(2) that] show ?thesis by auto
  qed
  with False ne find_last_linear_chain[OF assms] show ?thesis by simp
qed

text \<open>
  The same at the root with the chain 2000, 3000, where the scan returns 3000, and at the
  freshly initialised root, where it returns \<open>NULL\<close>.
\<close>

theorem find_last_linear_returns_tail_witness:
  "node_at (heap (two_leaves [])) root_addr = Some (root_node\<lparr>n_east := 2000\<rparr>) \<and>
   chain (heap (two_leaves [])) 2000 [2000, 3000] \<and>
   find_last_linear (two_leaves []) root_addr = Some (Inr (two_leaves [], 3000)) \<and>
   node_at (heap (root_init [])) root_addr = Some root_node \<and>
   chain (heap (root_init [])) NULL [] \<and>
   find_last_linear (root_init []) root_addr = Some (Inr (root_init [], NULL))"
proof -
  have a: "node_at (heap (two_leaves [])) root_addr = Some (root_node\<lparr>n_east := 2000\<rparr>)"
    by (simp add: two_leaves_def root_addr_def)
  have b: "chain (heap (two_leaves [])) (n_east (root_node\<lparr>n_east := 2000\<rparr>)) [2000, 3000]"
    by (simp add: two_leaves_def root_addr_def plain_leaf_def)
  have c: "node_at (heap (root_init [])) root_addr = Some root_node"
    by (simp add: root_init_def root_addr_def)
  have d: "chain (heap (root_init [])) (n_east root_node) []"
    by (simp add: root_node_def)
  have e: "root_init []\<lparr>errno := NoError\<rparr> = root_init []"
    by (simp add: root_init_def NoError_def)
  from find_last_linear_returns_tail[OF a b] find_last_linear_returns_tail[OF c d] a b c d e
  show ?thesis by (simp add: root_node_def)
qed

section \<open>Facts about create\_node\<close>

lemma cstring_no_NUL: "cstring src = Some str \<Longrightarrow> 0 \<notin> set str \<and> str = takeWhile (\<lambda>b. b \<noteq> 0) src"
  by (auto simp: cstring_def split: if_splits dest: set_takeWhileD)

lemma cstring_prefix:
  "0 \<notin> set str \<Longrightarrow> cstring (take n str @ 0 # rest) = Some (take n str)"
proof -
  assume a: "0 \<notin> set str"
  have "takeWhile (\<lambda>b. b \<noteq> 0) (take n str @ 0 # rest) =
          take n str @ takeWhile (\<lambda>b. b \<noteq> 0) (0 # rest)"
    using a by (intro takeWhile_append2) (auto dest: in_set_takeD)
  then show ?thesis by (simp add: cstring_def)
qed

lemma exec_create_node_body:
  assumes "heap s1 node = Some (Raw sizeof_node)" "node \<noteq> NULL"
    "node_at (heap s1) parent = Some pn" "parent \<noteq> node"
  shows "exec (create_node_body parent node path) s1 = Inr s2 \<longleftrightarrow>
    (\<exists>str. cstring path = Some str \<and>
       s2 = s1\<lparr>heap := (heap s1)(parent \<mapsto> ONode (pn\<lparr>n_west := node\<rparr>),
                  node \<mapsto> ONode \<lparr>n_north = parent, n_west = NULL, n_east = NULL,
                     n_path = take 255 str @ 0 # replicate (255 - min (length str) 255) 0,
                     n_tag = TagNode\<rparr>)\<rparr>)"
  using assms node_at_heap[OF assms(3)]
  by (auto simp add: create_node_body_def stmt_defs zero_node_def split: option.splits)

lemma create_node_success:
  assumes "create_node s parent path = Inr (s', node)" "node \<noteq> NULL"
    "node_at (heap s) parent = Some pn"
  shows "\<exists>rest str. offers s = node # rest \<and> heap s node = None \<and> cstring path = Some str \<and>
     node \<noteq> parent \<and>
     s' = s\<lparr>heap := (heap s)(parent \<mapsto> ONode (pn\<lparr>n_west := node\<rparr>),
                 node \<mapsto> ONode \<lparr>n_north = parent, n_west = NULL, n_east = NULL,
                     n_path = take 255 str @ 0 # replicate (255 - min (length str) 255) 0,
                     n_tag = TagNode\<rparr>), offers := rest\<rparr>"
proof -
  from assms(1) have p: "parent \<noteq> NULL" by (auto simp: create_node_def split: if_splits)
  obtain s1 a where m: "malloc s sizeof_node = (s1, a)" by (cases "malloc s sizeof_node")
  with assms(1,2) p have a: "a = node"
    and e: "exec (create_node_body parent node path) s1 = Inr s'"
    by (auto simp: create_node_def split: if_splits sum.splits)
  from malloc_cases[OF m] a assms(2) obtain rest where
    fresh: "heap s node = None" and off: "offers s = node # rest"
    and s1: "s1 = s\<lparr>heap := (heap s)(node \<mapsto> Raw sizeof_node), offers := rest\<rparr>" by auto
  have ne: "parent \<noteq> node" using node_at_heap[OF assms(3)] fresh by auto
  have "node_at (heap s1) parent = Some pn" "heap s1 node = Some (Raw sizeof_node)"
    using s1 ne assms(3) by simp_all
  from exec_create_node_body[OF this(2) assms(2) this(1) ne, of path s'] e
  obtain str where "cstring path = Some str"
    "s' = s1\<lparr>heap := (heap s1)(parent \<mapsto> ONode (pn\<lparr>n_west := node\<rparr>),
                  node \<mapsto> ONode \<lparr>n_north = parent, n_west = NULL, n_east = NULL,
                     n_path = take 255 str @ 0 # replicate (255 - min (length str) 255) 0,
                     n_tag = TagNode\<rparr>)\<rparr>" by auto
  with s1 fresh off ne show ?thesis by (auto simp: fun_upd_twist)
qed

lemma create_node_alloc_fails:
  assumes "parent \<noteq> NULL" "snd (malloc s sizeof_node) = NULL"
  shows "create_node s parent path = Inr (fst (malloc s sizeof_node), NULL)"
  using assms by (cases "malloc s sizeof_node") (simp add: create_node_def)

lemma create_node_total:
  assumes "node_at (heap s) parent = Some pn" "snd (malloc s sizeof_node) \<noteq> NULL"
    "cstring path = Some str"
  shows "\<exists>s' node. create_node s parent path = Inr (s', node) \<and> node \<noteq> NULL"
proof -
  obtain s1 a where m: "malloc s sizeof_node = (s1, a)" by (cases "malloc s sizeof_node")
  with assms(2) have a: "a \<noteq> NULL" by simp
  from malloc_cases[OF m] a obtain rest where
    fresh: "heap s a = None" and off: "offers s = a # rest"
    and s1: "s1 = s\<lparr>heap := (heap s)(a \<mapsto> Raw sizeof_node), offers := rest\<rparr>" by auto
  have ne: "parent \<noteq> a" and p: "parent \<noteq> NULL" using node_at_heap[OF assms(1)] fresh by auto
  have "node_at (heap s1) parent = Some pn" "heap s1 a = Some (Raw sizeof_node)"
    using s1 ne assms(1) by simp_all
  from exec_create_node_body[OF this(2) a this(1) ne, of path] assms(3)
  obtain s2 where "exec (create_node_body parent a path) s1 = Inr s2" by auto
  with m a p show ?thesis by (simp add: create_node_def)
qed

lemma root_init_views:
  "node_at (heap (root_init as)) root_addr = Some root_node"
  "leaf_at (heap (root_init as)) root_addr = None"
  by (simp_all add: root_init_def root_addr_def)

lemma root_init_reach: "reach (heap (root_init as)) root_addr q \<Longrightarrow> q = root_addr"
  by (induction rule: reach.induct) (auto simp: root_init_views root_node_def)

section \<open>The links of a new container\<close>

text \<open>
  C7. After a successful \<open>create_node(p, path)\<close> with result \<open>r1\<close> on a container
  \<open>p\<close>: the parent link of \<open>r1\<close> is \<open>p\<close>, the child link and the leaf chain head of
  \<open>r1\<close> are \<open>NULL\<close>, and \<open>p\<close> is as before except that its child link is now
  \<open>r1\<close>, whatever it was. After a second successful call on \<open>p\<close>, with result \<open>r2\<close>,
  the child link of \<open>p\<close> is \<open>r2\<close>, which differs from \<open>r1\<close>; \<open>r2\<close> is reachable
  from \<open>p\<close>, and \<open>r1\<close> no longer is (provided that, before the calls, every entity
  reachable from \<open>p\<close> was allocated, that is, \<open>p\<close> led to no dangling pointer).
\<close>

theorem create_node_links:
  assumes "create_node s p path = Inr (s1, r1)" "r1 \<noteq> NULL" "node_at (heap s) p = Some pn"
  shows "(\<exists>n1. node_at (heap s1) r1 = Some n1 \<and> n_north n1 = p \<and>
               n_west n1 = NULL \<and> n_east n1 = NULL) \<and>
         node_at (heap s1) p = Some (pn\<lparr>n_west := r1\<rparr>) \<and>
         (\<forall>path2 s2 r2. create_node s1 p path2 = Inr (s2, r2) \<longrightarrow> r2 \<noteq> NULL \<longrightarrow>
            node_at (heap s2) p = Some (pn\<lparr>n_west := r2\<rparr>) \<and> r2 \<noteq> r1 \<and>
            reach (heap s2) p r2 \<and>
            ((\<forall>q. reach (heap s) p q \<longrightarrow> heap s q \<noteq> None) \<longrightarrow> \<not> reach (heap s2) p r1))"
proof -
  from create_node_success[OF assms] obtain rest str where
    f1: "heap s r1 = None" "r1 \<noteq> p"
    and s1: "s1 = s\<lparr>heap := (heap s)(p \<mapsto> ONode (pn\<lparr>n_west := r1\<rparr>),
                 r1 \<mapsto> ONode \<lparr>n_north = p, n_west = NULL, n_east = NULL,
                     n_path = take 255 str @ 0 # replicate (255 - min (length str) 255) 0,
                     n_tag = TagNode\<rparr>), offers := rest\<rparr>"
    by blast
  have p0: "p \<noteq> NULL" using node_at_heap[OF assms(3)] by simp
  have A: "\<exists>n1. node_at (heap s1) r1 = Some n1 \<and> n_north n1 = p \<and> n_west n1 = NULL \<and> n_east n1 = NULL"
    using s1 assms(2) by simp
  have B: "node_at (heap s1) p = Some (pn\<lparr>n_west := r1\<rparr>)"
    using s1 f1 p0 by simp
  have C: "node_at (heap s2) p = Some (pn\<lparr>n_west := r2\<rparr>) \<and> r2 \<noteq> r1 \<and>
            reach (heap s2) p r2 \<and>
            ((\<forall>q. reach (heap s) p q \<longrightarrow> heap s q \<noteq> None) \<longrightarrow> \<not> reach (heap s2) p r1)"
    if c2: "create_node s1 p path2 = Inr (s2, r2)" and r2: "r2 \<noteq> NULL" for path2 s2 r2
  proof -
    from create_node_success[OF c2 r2 B] obtain rest2 str2 where
      f2: "heap s1 r2 = None" "r2 \<noteq> p"
      and s2: "s2 = s1\<lparr>heap := (heap s1)(p \<mapsto> ONode (pn\<lparr>n_west := r1, n_west := r2\<rparr>),
                 r2 \<mapsto> ONode \<lparr>n_north = p, n_west = NULL, n_east = NULL,
                     n_path = take 255 str2 @ 0 # replicate (255 - min (length str2) 255) 0,
                     n_tag = TagNode\<rparr>), offers := rest2\<rparr>"
      by blast
    have r21: "r2 \<noteq> r1" using f2(1) s1 by auto
    have fresh2: "heap s r2 = None" using f2 s1 r21 by (auto split: if_splits)
    have P: "node_at (heap s2) p = Some (pn\<lparr>n_west := r2\<rparr>)" using s2 f2 p0 by simp
    have Pl: "leaf_at (heap s2) p = None" using s2 f2 p0 by simp
    have N2: "node_at (heap s2) r2 = Some \<lparr>n_north = p, n_west = NULL, n_east = NULL,
                     n_path = take 255 str2 @ 0 # replicate (255 - min (length str2) 255) 0,
                     n_tag = TagNode\<rparr>" using s2 r2 by simp
    have N2l: "leaf_at (heap s2) r2 = None" using s2 r2 by simp
    have frame: "heap s2 q = heap s q" if "q \<noteq> p" "q \<noteq> r1" "q \<noteq> r2" for q
      using that s1 s2 by simp
    have R2: "reach (heap s2) p r2"
      using reach_west[OF reach_self P] r2 by simp
    have U: "\<not> reach (heap s2) p r1" if closed: "\<forall>q. reach (heap s) p q \<longrightarrow> heap s q \<noteq> None"
    proof -
      have old: "q \<noteq> r1 \<and> q \<noteq> r2" if "reach (heap s) p q" for q
        using closed that f1 fresh2 by auto
      have inv: "q \<noteq> r1 \<and> (q = r2 \<or> reach (heap s) p q)" if "reach (heap s2) p q" for q
        using that
      proof (induction rule: reach.induct)
        case reach_self
        show ?case using f1 by (auto intro: reach.reach_self)
      next
        case (reach_north q n)
        show ?case
        proof (cases "q = r2")
          case True
          with reach_north N2 f1 show ?thesis by (auto intro: reach.reach_self)
        next
          case False
          with reach_north.IH have rq: "reach (heap s) p q" by simp
          have "reach (heap s) p (n_north n)"
          proof (cases "q = p")
            case True
            with reach_north P have "n_north n = n_north pn" by auto
            with reach_north.hyps assms(3) reach.reach_north[OF reach.reach_self assms(3)]
            show ?thesis by simp
          next
            case False
            with old[OF rq] frame[of q] reach_north.hyps views_agree[of "heap s2" q "heap s"]
            have "node_at (heap s) q = Some n" by simp
            from reach.reach_north[OF rq this] reach_north.hyps show ?thesis by simp
          qed
          with old show ?thesis by simp
        qed
      next
        case (reach_west q n)
        show ?case
        proof (cases "q = r2")
          case True
          with reach_west N2 show ?thesis by auto
        next
          case False
          with reach_west.IH have rq: "reach (heap s) p q" by simp
          show ?thesis
          proof (cases "q = p")
            case True
            with reach_west P r21 show ?thesis by auto
          next
            case False
            with old[OF rq] frame[of q] reach_west.hyps views_agree[of "heap s2" q "heap s"]
            have "node_at (heap s) q = Some n" by simp
            from reach.reach_west[OF rq this] reach_west.hyps old show ?thesis by simp
          qed
        qed
      next
        case (reach_east q n)
        show ?case
        proof (cases "q = r2")
          case True
          with reach_east N2 show ?thesis by auto
        next
          case False
          with reach_east.IH have rq: "reach (heap s) p q" by simp
          have "reach (heap s) p (n_east n)"
          proof (cases "q = p")
            case True
            with reach_east P have "n_east n = n_east pn" by auto
            with reach_east.hyps assms(3) reach.reach_east[OF reach.reach_self assms(3)]
            show ?thesis by simp
          next
            case False
            with old[OF rq] frame[of q] reach_east.hyps views_agree[of "heap s2" q "heap s"]
            have "node_at (heap s) q = Some n" by simp
            from reach.reach_east[OF rq this] reach_east.hyps show ?thesis by simp
          qed
          with old show ?thesis by simp
        qed
      next
        case (reach_back q l)
        have "q \<noteq> r2" "q \<noteq> p" using reach_back.hyps N2l Pl by auto
        with reach_back.IH have rq: "reach (heap s) p q" by simp
        with old[OF rq] frame[of q] reach_back.hyps views_agree[of "heap s2" q "heap s"] \<open>q \<noteq> p\<close>
        have "leaf_at (heap s) q = Some l" by simp
        from reach.reach_back[OF rq this] reach_back.hyps old show ?case by simp
      next
        case (reach_sibling q l)
        have "q \<noteq> r2" "q \<noteq> p" using reach_sibling.hyps N2l Pl by auto
        with reach_sibling.IH have rq: "reach (heap s) p q" by simp
        with old[OF rq] frame[of q] reach_sibling.hyps views_agree[of "heap s2" q "heap s"] \<open>q \<noteq> p\<close>
        have "leaf_at (heap s) q = Some l" by simp
        from reach.reach_sibling[OF rq this] reach_sibling.hyps old show ?case by simp
      qed
      then show ?thesis by blast
    qed
    from P r21 R2 U show ?thesis by blast
  qed
  from A B C show ?thesis by blast
qed


text \<open>
  Two calls on the freshly initialised root, with the allocator offering 2000 and then
  3000.
\<close>

lemma malloc_root_init:
  "a \<noteq> NULL \<Longrightarrow> a \<noteq> root_addr \<Longrightarrow> snd (malloc (root_init (a # as)) sz) = a"
  by (simp add: malloc_def root_init_def)

theorem create_node_links_witness:
  "\<exists>s1 s2. create_node (root_init [2000, 3000]) root_addr [0] = Inr (s1, 2000) \<and>
     create_node s1 root_addr [97, 0] = Inr (s2, 3000) \<and>
     node_at (heap (root_init [2000, 3000])) root_addr = Some root_node \<and>
     (\<forall>q. reach (heap (root_init [2000, 3000])) root_addr q \<longrightarrow>
            heap (root_init [2000, 3000]) q \<noteq> None) \<and>
     node_at (heap s1) root_addr = Some (root_node\<lparr>n_west := 2000\<rparr>) \<and>
     node_at (heap s2) root_addr = Some (root_node\<lparr>n_west := 3000\<rparr>) \<and>
     reach (heap s2) root_addr 3000 \<and> \<not> reach (heap s2) root_addr 2000"
proof -
  let ?s = "root_init [2000, 3000]"
  have pn: "node_at (heap ?s) root_addr = Some root_node" by (rule root_init_views)
  have closed: "\<forall>q. reach (heap ?s) root_addr q \<longrightarrow> heap ?s q \<noteq> None"
    using root_init_reach[of "[2000, 3000]"] node_at_heap[OF pn] by auto
  have "snd (malloc ?s sizeof_node) \<noteq> NULL"
    by (simp add: malloc_root_init root_addr_def)
  from create_node_total[OF pn this, of "[0]"] obtain s1 r1 where
    c1: "create_node ?s root_addr [0] = Inr (s1, r1)" and r1: "r1 \<noteq> NULL"
    by (auto simp: cstring_def)
  from create_node_success[OF c1 r1 pn] have r1v: "r1 = 2000" and o1: "offers s1 = [3000]"
    and h1: "heap s1 3000 = None"
    by (auto simp: root_init_def root_addr_def)
  note L = create_node_links[OF c1 r1 pn]
  from L have pn1: "node_at (heap s1) root_addr = Some (root_node\<lparr>n_west := r1\<rparr>)" by blast
  have "snd (malloc s1 sizeof_node) \<noteq> NULL" using o1 h1 by (simp add: malloc_def)
  from create_node_total[OF pn1 this, of "[97, 0]"] obtain s2 r2 where
    c2: "create_node s1 root_addr [97, 0] = Inr (s2, r2)" and r2: "r2 \<noteq> NULL"
    by (auto simp: cstring_def)
  from create_node_success[OF c2 r2 pn1] o1 have r2v: "r2 = 3000" by auto
  from L c2 r2 closed have
    "node_at (heap s2) root_addr = Some (root_node\<lparr>n_west := r2\<rparr>)"
    "reach (heap s2) root_addr r2" "\<not> reach (heap s2) root_addr r1"
    by blast+
  with c1 c2 pn closed pn1 r1v r2v show ?thesis by blast
qed

section \<open>Facts about create\_leaf\<close>

lemma exec_link_null:
  "exec (create_leaf_link parent leaf NULL key) s1 = Inl (Assert_new_leaf, s1)"
  by (simp add: create_leaf_link_def assert_new_leaf_def)

lemma exec_link_first:
  assumes "heap s1 new = Some (Raw sizeof_leaf)" "new \<noteq> NULL"
    "node_at (heap s1) parent = Some pn" "parent \<noteq> new"
  shows "exec (create_leaf_link parent NULL new key) s1 = Inr s2 \<longleftrightarrow>
    (\<exists>kb. strncpy_bytes key 127 = Some kb \<and>
       s2 = s1\<lparr>heap := (heap s1)(parent \<mapsto> ONode (pn\<lparr>n_east := new\<rparr>),
                  new \<mapsto> OLeaf \<lparr>l_west = parent, l_east = NULL, l_key = kb @ [0],
                           l_value = NULL, l_size = 0, l_tag = TagLeaf\<rparr>)\<rparr>)"
  using assms node_at_heap[OF assms(3)]
  by (auto simp add: create_leaf_link_def stmt_defs zero_leaf_def split: option.splits)

lemma exec_link_next:
  assumes "heap s1 new = Some (Raw sizeof_leaf)" "new \<noteq> NULL"
    "leaf_at (heap s1) leaf = Some old" "leaf \<noteq> new"
  shows "exec (create_leaf_link parent leaf new key) s1 = Inr s2 \<longleftrightarrow>
    (\<exists>kb. strncpy_bytes key 127 = Some kb \<and>
       s2 = s1\<lparr>heap := (heap s1)(leaf \<mapsto> OLeaf (old\<lparr>l_east := new\<rparr>),
                  new \<mapsto> OLeaf \<lparr>l_west = leaf, l_east = NULL, l_key = kb @ [0],
                           l_value = NULL, l_size = 0, l_tag = TagLeaf\<rparr>)\<rparr>)"
  using assms leaf_at_heap[OF assms(3)]
  by (auto simp add: create_leaf_link_def stmt_defs zero_leaf_def split: option.splits)

lemma exec_value_block:
  assumes "heap s3 buf = Some (Raw (unat count))" "buf \<noteq> NULL"
    "leaf_at (heap s3) new = Some l" "buf \<noteq> new"
    "exec (create_leaf_value new buf count value) s3 = Inr s4"
  shows "\<exists>vb. length vb = unat count \<and>
     s4 = s3\<lparr>heap := (heap s3)(buf \<mapsto> Bytes vb,
                new \<mapsto> OLeaf (l\<lparr>l_value := buf, l_size := count\<rparr>))\<rparr>"
  using assms leaf_at_heap[OF assms(3)]
  by (auto simp add: create_leaf_value_def stmt_defs split: option.splits if_splits
      dest: strncpy_bytes_length)

lemma exec_value_block_null:
  "exec (create_leaf_value new NULL count value) s3 =
     (case leaf_at (heap s3) new of None \<Rightarrow> Inl (Fault, s3)
      | Some l \<Rightarrow> Inl (Assert_zero_ptr,
                      s3\<lparr>heap := (heap s3)(new \<mapsto> OLeaf (l\<lparr>l_value := NULL\<rparr>))\<rparr>))"
  by (auto simp add: create_leaf_value_def stmt_defs split: option.splits if_splits
      dest: leaf_at_heap)

lemma create_leaf_steps:
  assumes "create_leaf s parent key count value = Some (Inr (s', ret))"
  obtains s0 s1 new s2 s3 buf where
    "parent \<noteq> NULL"
    "find_last_linear s parent = Some (Inr (s0, ret))"
    "malloc s0 sizeof_leaf = (s1, new)"
    "exec (create_leaf_link parent ret new key) s1 = Inr s2"
    "malloc s2 (unat count) = (s3, buf)"
    "exec (create_leaf_value new buf count value) s3 = Inr s'"
  using assms
  by (auto simp: create_leaf_def find_last_def
      split: if_splits option.splits sum.splits prod.splits)

lemma create_leaf_run:
  assumes ok: "create_leaf s parent key count value = Some (Inr (s', ret))"
  obtains s0 pn rs old new buf rest kb s1 s2 s3 where
    "parent \<noteq> NULL" "find_last_linear s parent = Some (Inr (s0, ret))"
    "heap s0 = heap s" "offers s0 = offers s"
    "node_at (heap s) parent = Some pn" "chain (heap s) (n_east pn) rs"
    "ret = (if rs = [] then NULL else last rs)"
    "rs \<noteq> [] \<Longrightarrow> leaf_at (heap s) (last rs) = Some old"
    "offers s = new # buf # rest"
    "new \<noteq> NULL" "buf \<noteq> NULL" "new \<noteq> buf" "heap s new = None" "heap s buf = None"
    "parent \<noteq> new" "parent \<noteq> buf" "rs \<noteq> [] \<Longrightarrow> last rs \<noteq> new \<and> last rs \<noteq> buf"
    "strncpy_bytes key 127 = Some kb"
    "s1 = s0\<lparr>heap := (heap s0)(new \<mapsto> Raw sizeof_leaf), offers := buf # rest\<rparr>"
    "s2 = s1\<lparr>heap :=
       (if rs = [] then (heap s1)(parent \<mapsto> ONode (pn\<lparr>n_east := new\<rparr>))
        else (heap s1)(last rs \<mapsto> OLeaf (old\<lparr>l_east := new\<rparr>)))
       (new \<mapsto> OLeaf \<lparr>l_west = (if rs = [] then parent else last rs), l_east = NULL,
                       l_key = kb @ [0], l_value = NULL, l_size = 0, l_tag = TagLeaf\<rparr>)\<rparr>"
    "s3 = s2\<lparr>heap := (heap s2)(buf \<mapsto> Raw (unat count)), offers := rest\<rparr>"
    "exec (create_leaf_value new buf count value) s3 = Inr s'"
proof -
  from create_leaf_steps[OF ok] obtain s0 s1 new s2 s3 buf where
    p: "parent \<noteq> NULL"
    and fl: "find_last_linear s parent = Some (Inr (s0, ret))"
    and m1: "malloc s0 sizeof_leaf = (s1, new)"
    and e1: "exec (create_leaf_link parent ret new key) s1 = Inr s2"
    and m2: "malloc s2 (unat count) = (s3, buf)"
    and e2: "exec (create_leaf_value new buf count value) s3 = Inr s'"
    by blast
  from find_last_linear_Inr[OF fl] obtain pn rs where
    pn: "node_at (heap s) parent = Some pn" and ch: "chain (heap s) (n_east pn) rs"
    and ret: "ret = (if rs = [] then NULL else last rs)"
    and h0: "heap s0 = heap s" and o0: "offers s0 = offers s" by blast
  have new0: "new \<noteq> NULL"
    using e1 exec_link_null[of parent ret key s1] by (cases "new = NULL") auto
  with malloc_cases[OF m1] obtain rest1 where
    fresh1: "heap s0 new = None" and off1: "offers s0 = new # rest1"
    and s1: "s1 = s0\<lparr>heap := (heap s0)(new \<mapsto> Raw sizeof_leaf), offers := rest1\<rparr>" by auto
  have raw1: "heap s1 new = Some (Raw sizeof_leaf)" using s1 by simp
  have pnew: "parent \<noteq> new" using node_at_heap[OF pn] fresh1 h0 by auto
  have pn1: "node_at (heap s1) parent = Some pn" using s1 pnew pn h0 by simp
  obtain old where old: "rs \<noteq> [] \<Longrightarrow> leaf_at (heap s) (last rs) = Some old"
    using chain_last[OF ch] by (cases "rs = []") auto
  have retnew: "rs \<noteq> [] \<Longrightarrow> last rs \<noteq> new"
    using old leaf_at_heap[of "heap s" "last rs" old] fresh1 h0 by auto
  obtain kb where kb: "strncpy_bytes key 127 = Some kb"
    and s2: "s2 = s1\<lparr>heap :=
       (if rs = [] then (heap s1)(parent \<mapsto> ONode (pn\<lparr>n_east := new\<rparr>))
        else (heap s1)(last rs \<mapsto> OLeaf (old\<lparr>l_east := new\<rparr>)))
       (new \<mapsto> OLeaf \<lparr>l_west = (if rs = [] then parent else last rs), l_east = NULL,
                       l_key = kb @ [0], l_value = NULL, l_size = 0, l_tag = TagLeaf\<rparr>)\<rparr>"
  proof (cases "rs = []")
    case True
    with e1 ret exec_link_first[OF raw1 new0 pn1 pnew, of key s2] that show ?thesis by auto
  next
    case False
    have "leaf_at (heap s1) (last rs) = Some old" using s1 old[OF False] retnew[OF False] h0 by simp
    from exec_link_next[OF raw1 new0 this retnew[OF False], of parent key s2] e1 ret False that
    show ?thesis by auto
  qed
  have o2: "offers s2 = rest1" using s2 s1 by simp
  have buf0: "buf \<noteq> NULL"
    using e2 exec_value_block_null[of new count "value" s3]
    by (cases "buf = NULL") (auto split: option.splits)
  with malloc_cases[OF m2] obtain rest where
    fresh2: "heap s2 buf = None" and off2: "offers s2 = buf # rest"
    and s3: "s3 = s2\<lparr>heap := (heap s2)(buf \<mapsto> Raw (unat count)), offers := rest\<rparr>" by auto
  have bn: "new \<noteq> buf" using fresh2 s2 by auto
  have fb: "heap s buf = None"
    using fresh2 s2 s1 h0 bn by (auto split: if_splits)
  have pb: "parent \<noteq> buf" using node_at_heap[OF pn] fb by auto
  have rb: "rs \<noteq> [] \<Longrightarrow> last rs \<noteq> new \<and> last rs \<noteq> buf"
    using retnew old leaf_at_heap[of "heap s" "last rs" old] fb by auto
  have offs: "offers s = new # buf # rest" using off1 o0 off2 o2 by simp
  have s1': "s1 = s0\<lparr>heap := (heap s0)(new \<mapsto> Raw sizeof_leaf), offers := buf # rest\<rparr>"
    using s1 off2 o2 by simp
  have f1: "heap s new = None" using fresh1 h0 by simp
  from that[OF p fl h0 o0 pn ch ret old offs new0 buf0 bn f1 fb pnew pb rb kb s1' s2 s3 e2]
  show ?thesis .
qed

lemma create_leaf_effect:
  assumes ok: "create_leaf s parent key count value = Some (Inr (s', ret))"
  obtains pn rs new buf rest kb vb old where
    "parent \<noteq> NULL" "node_at (heap s) parent = Some pn" "chain (heap s) (n_east pn) rs"
    "ret = (if rs = [] then NULL else last rs)"
    "rs \<noteq> [] \<Longrightarrow> leaf_at (heap s) (last rs) = Some old"
    "offers s = new # buf # rest" "offers s' = rest"
    "new \<noteq> NULL" "buf \<noteq> NULL" "new \<noteq> buf" "heap s new = None" "heap s buf = None"
    "strncpy_bytes key 127 = Some kb" "length vb = unat count"
    "heap s' =
       (if rs = [] then (heap s)(parent \<mapsto> ONode (pn\<lparr>n_east := new\<rparr>))
        else (heap s)(last rs \<mapsto> OLeaf (old\<lparr>l_east := new\<rparr>)))
       (new \<mapsto> OLeaf \<lparr>l_west = (if rs = [] then parent else last rs), l_east = NULL,
                       l_key = kb @ [0], l_value = buf, l_size = count, l_tag = TagLeaf\<rparr>,
        buf \<mapsto> Bytes vb)"
proof (rule create_leaf_run[OF ok])
  fix s0 pn rs old new buf rest kb s1 s2 s3
  assume r: "parent \<noteq> NULL"
    "heap s0 = heap s"
    "node_at (heap s) parent = Some pn" "chain (heap s) (n_east pn) rs"
    "ret = (if rs = [] then NULL else last rs)"
    "rs \<noteq> [] \<Longrightarrow> leaf_at (heap s) (last rs) = Some old"
    "offers s = new # buf # rest"
    "new \<noteq> NULL" "buf \<noteq> NULL" "new \<noteq> buf" "heap s new = None" "heap s buf = None"
    "parent \<noteq> new" "parent \<noteq> buf" "rs \<noteq> [] \<Longrightarrow> last rs \<noteq> new \<and> last rs \<noteq> buf"
    "strncpy_bytes key 127 = Some kb"
    and s1: "s1 = s0\<lparr>heap := (heap s0)(new \<mapsto> Raw sizeof_leaf), offers := buf # rest\<rparr>"
    and s2: "s2 = s1\<lparr>heap :=
       (if rs = [] then (heap s1)(parent \<mapsto> ONode (pn\<lparr>n_east := new\<rparr>))
        else (heap s1)(last rs \<mapsto> OLeaf (old\<lparr>l_east := new\<rparr>)))
       (new \<mapsto> OLeaf \<lparr>l_west = (if rs = [] then parent else last rs), l_east = NULL,
                       l_key = kb @ [0], l_value = NULL, l_size = 0, l_tag = TagLeaf\<rparr>)\<rparr>"
    and s3: "s3 = s2\<lparr>heap := (heap s2)(buf \<mapsto> Raw (unat count)), offers := rest\<rparr>"
    and e2: "exec (create_leaf_value new buf count value) s3 = Inr s'"
  have raw3: "heap s3 buf = Some (Raw (unat count))" using s3 by simp
  have l3: "leaf_at (heap s3) new = Some \<lparr>l_west = (if rs = [] then parent else last rs),
       l_east = NULL, l_key = kb @ [0], l_value = NULL, l_size = 0, l_tag = TagLeaf\<rparr>"
    using s3 s2 r(8,10) by simp
  from exec_value_block[OF raw3 r(9) l3 r(10)[symmetric] e2] obtain vb where
    vb: "length vb = unat count"
    and s4: "s' = s3\<lparr>heap := (heap s3)(buf \<mapsto> Bytes vb,
                new \<mapsto> OLeaf (\<lparr>l_west = (if rs = [] then parent else last rs),
       l_east = NULL, l_key = kb @ [0], l_value = NULL, l_size = 0, l_tag = TagLeaf\<rparr>
          \<lparr>l_value := buf, l_size := count\<rparr>))\<rparr>" by blast
  have heap': "heap s' =
       (if rs = [] then (heap s)(parent \<mapsto> ONode (pn\<lparr>n_east := new\<rparr>))
        else (heap s)(last rs \<mapsto> OLeaf (old\<lparr>l_east := new\<rparr>)))
       (new \<mapsto> OLeaf \<lparr>l_west = (if rs = [] then parent else last rs), l_east = NULL,
                       l_key = kb @ [0], l_value = buf, l_size = count, l_tag = TagLeaf\<rparr>,
        buf \<mapsto> Bytes vb)"
    using s4 s3 s2 s1 r(2,10,13,15) by (auto simp: fun_eq_iff)
  have offs: "offers s' = rest" using s4 s3 by simp
  from that[OF r(1,3,4,5,6,7) offs r(8,9,10,11,12,16) vb heap'] show thesis .
qed

lemma next_offer_Cons [simp]: "offers s = a # rest \<Longrightarrow> next_offer s = a"
  by (simp add: next_offer_def)

lemma create_leaf_chain:
  assumes ok: "create_leaf s parent key count value = Some (Inr (s', ret))"
    and pn: "node_at (heap s) parent = Some pn" and ch: "chain (heap s) (n_east pn) rs"
  shows "\<exists>pn'. node_at (heap s') parent = Some pn' \<and>
           chain (heap s') (n_east pn') (rs @ [next_offer s]) \<and>
           ret = (if rs = [] then NULL else last rs) \<and>
           next_offer s \<noteq> NULL \<and> heap s (next_offer s) = None"
proof -
  from create_leaf_effect[OF ok] obtain pn0 rs0 new buf rest kb vb old where
    e: "node_at (heap s) parent = Some pn0" "chain (heap s) (n_east pn0) rs0"
    "ret = (if rs0 = [] then NULL else last rs0)"
    "rs0 \<noteq> [] \<Longrightarrow> leaf_at (heap s) (last rs0) = Some old"
    "offers s = new # buf # rest"
    "new \<noteq> NULL" "buf \<noteq> NULL" "new \<noteq> buf" "heap s new = None" "heap s buf = None"
    and h': "heap s' =
       (if rs0 = [] then (heap s)(parent \<mapsto> ONode (pn0\<lparr>n_east := new\<rparr>))
        else (heap s)(last rs0 \<mapsto> OLeaf (old\<lparr>l_east := new\<rparr>)))
       (new \<mapsto> OLeaf \<lparr>l_west = (if rs0 = [] then parent else last rs0), l_east = NULL,
                       l_key = kb @ [0], l_value = buf, l_size = count, l_tag = TagLeaf\<rparr>,
        buf \<mapsto> Bytes vb)"
    by metis
  have pn0: "pn0 = pn" using e(1) pn by simp
  have rs0: "rs0 = rs" using chain_unique[OF e(2)] ch pn0 by simp
  note e = e[unfolded pn0 rs0] and h' = h'[unfolded pn0 rs0]
  have no: "next_offer s = new" using e(5) by simp
  have pa: "parent \<noteq> new" "parent \<noteq> buf" "parent \<noteq> NULL"
    using node_at_heap[OF pn] e by auto
  have nl: "leaf_at (heap s') new = Some \<lparr>l_west = (if rs = [] then parent else last rs),
        l_east = NULL, l_key = kb @ [0], l_value = buf, l_size = count, l_tag = TagLeaf\<rparr>"
    using h' e by simp
  show ?thesis
  proof (cases "rs = []")
    case True
    have "node_at (heap s') parent = Some (pn\<lparr>n_east := new\<rparr>)"
      using h' True pa by simp
    moreover have "chain (heap s') new ([] @ [new])" using nl e by simp
    ultimately show ?thesis using True e no by simp
  next
    case False
    have lr: "leaf_at (heap s) (last rs) = Some old" using e(4)[OF False] .
    have alloc: "r \<noteq> new \<and> r \<noteq> buf \<and> r \<noteq> NULL" if "r \<in> set rs" for r
      using chain_leaf[OF ch that] leaf_at_heap[of "heap s" r] e by auto
    have last_in: "last rs \<in> set rs" using False by simp
    have pl: "parent \<noteq> last rs" using node_not_leaf[OF pn] lr by auto
    have P: "node_at (heap s') parent = Some pn" using h' False pa pl pn by simp
    have L: "leaf_at (heap s') (last rs) = Some (old\<lparr>l_east := new\<rparr>)"
      using h' False alloc[OF last_in] by simp
    have F: "\<forall>r\<in>set rs. r \<noteq> last rs \<longrightarrow> leaf_at (heap s') r = leaf_at (heap s) r"
      using h' False alloc by simp
    have "new \<notin> set rs" using alloc by auto
    from chain_snoc[OF ch False lr L e(6) this nl _ F]
    have "chain (heap s') (n_east pn) (rs @ [new])" by simp
    with P False e no show ?thesis by simp
  qed
qed

lemma exec_value_block_ok:
  assumes "heap s3 buf = Some (Raw (unat count))" "buf \<noteq> NULL"
    "heap s3 new = Some (OLeaf l)" "new \<noteq> NULL" "buf \<noteq> new"
    "strncpy_bytes (case bytes_at (heap s3) (unat value) of None \<Rightarrow> [] | Some b \<Rightarrow> b)
       (unat count) = Some vb"
  shows "exec (create_leaf_value new buf count value) s3 =
     Inr (s3\<lparr>heap := (heap s3)(buf \<mapsto> Bytes vb,
                new \<mapsto> OLeaf (l\<lparr>l_value := buf, l_size := count\<rparr>))\<rparr>)"
proof -
  have len: "length vb = unat count" using assms(6) by (rule strncpy_bytes_length)
  have nb: "bytes_at (heap s3) buf = None" "bytes_at (heap s3) new = None"
    using assms(1,3) by (auto simp: bytes_at_def)
  have lf: "leaf_at (heap s3) new = Some l" using assms(3,4) by (simp add: leaf_at_def)
  show ?thesis
  proof (cases "unat count = 0")
    case True
    with len assms lf nb show ?thesis
      by (auto simp add: create_leaf_value_def stmt_defs split: option.splits)
  next
    case False
    then obtain k where k: "unat count = Suc k" by (cases "unat count") auto
    with assms(6) nb have "unat value \<noteq> buf" "unat value \<noteq> new" by auto
    with len assms lf False show ?thesis
      by (auto simp add: create_leaf_value_def stmt_defs split: option.splits)
  qed
qed

lemma create_leaf_upto_value:
  assumes pn: "node_at (heap s) parent = Some pn" and ch: "chain (heap s) (n_east pn) rs"
    and off: "offers s = new # buf # rest"
    and fresh: "new \<noteq> NULL" "buf \<noteq> NULL" "new \<noteq> buf" "heap s new = None" "heap s buf = None"
    and key: "strncpy_bytes key 127 \<noteq> None"
  shows "\<exists>s3 l. heap s3 buf = Some (Raw (unat count)) \<and> heap s3 new = Some (OLeaf l) \<and>
     (\<forall>q. q \<noteq> new \<longrightarrow> q \<noteq> buf \<longrightarrow> q \<noteq> (if rs = [] then parent else last rs) \<longrightarrow>
          heap s3 q = heap s q) \<and>
     bytes_at (heap s3) (if rs = [] then parent else last rs) = None \<and>
     create_leaf s parent key count value =
       (case exec (create_leaf_value new buf count value) s3 of
          Inl e \<Rightarrow> Some (Inl e)
        | Inr s4 \<Rightarrow> Some (Inr (s4, if rs = [] then NULL else last rs)))"
proof -
  let ?ret = "if rs = [] then NULL else last rs"
  let ?s0 = "if rs = [] then s\<lparr>errno := NoError\<rparr> else s"
  have p: "parent \<noteq> NULL" using node_at_heap[OF pn] by simp
  have fl: "find_last s parent = Some (Inr (?s0, ?ret))"
    using find_last_linear_chain[OF pn ch] by (simp add: find_last_def reterr_def)
  define s1 where "s1 = ?s0\<lparr>heap := (heap ?s0)(new \<mapsto> Raw sizeof_leaf), offers := buf # rest\<rparr>"
  have m1: "malloc ?s0 sizeof_leaf = (s1, new)"
    using off fresh by (simp add: malloc_def s1_def)
  have raw1: "heap s1 new = Some (Raw sizeof_leaf)" by (simp add: s1_def)
  have pnew: "parent \<noteq> new" using node_at_heap[OF pn] fresh by auto
  have pn1: "node_at (heap s1) parent = Some pn" using pnew pn by (simp add: s1_def)
  obtain kb where kb: "strncpy_bytes key 127 = Some kb" using key by auto
  obtain old where old: "rs \<noteq> [] \<Longrightarrow> leaf_at (heap s) (last rs) = Some old"
    using chain_last[OF ch] by (cases "rs = []") auto
  have retnew: "rs \<noteq> [] \<Longrightarrow> last rs \<noteq> new \<and> last rs \<noteq> buf"
    using old leaf_at_heap[of "heap s" "last rs" old] fresh by auto
  define l0 where "l0 = \<lparr>l_west = (if rs = [] then parent else last rs), l_east = NULL,
                       l_key = kb @ [0], l_value = NULL, l_size = 0, l_tag = TagLeaf\<rparr>"
  define s2 where "s2 = s1\<lparr>heap :=
       (if rs = [] then (heap s1)(parent \<mapsto> ONode (pn\<lparr>n_east := new\<rparr>))
        else (heap s1)(last rs \<mapsto> OLeaf (old\<lparr>l_east := new\<rparr>)))
       (new \<mapsto> OLeaf l0)\<rparr>"
  have e1: "exec (create_leaf_link parent ?ret new key) s1 = Inr s2"
  proof (cases "rs = []")
    case True
    with exec_link_first[OF raw1 fresh(1) pn1 pnew, of key s2] kb show ?thesis
      by (simp add: s2_def l0_def)
  next
    case False
    have "leaf_at (heap s1) (last rs) = Some old" using old[OF False] retnew[OF False] False
      by (simp add: s1_def)
    from exec_link_next[OF raw1 fresh(1) this, of parent key s2] retnew[OF False] False kb
    show ?thesis by (simp add: s2_def l0_def)
  qed
  define s3 where "s3 = s2\<lparr>heap := (heap s2)(buf \<mapsto> Raw (unat count)), offers := rest\<rparr>"
  have pb: "parent \<noteq> buf" using node_at_heap[OF pn] fresh by auto
  have "heap s2 buf = None" using fresh retnew pb by (auto simp: s2_def s1_def)
  then have m2: "malloc s2 (unat count) = (s3, buf)"
    using fresh by (simp add: malloc_def s2_def s1_def s3_def)
  have raw3: "heap s3 buf = Some (Raw (unat count))" by (simp add: s3_def)
  have l3: "heap s3 new = Some (OLeaf l0)" using fresh by (simp add: s3_def s2_def)
  have frame: "\<forall>q. q \<noteq> new \<longrightarrow> q \<noteq> buf \<longrightarrow> q \<noteq> (if rs = [] then parent else last rs) \<longrightarrow>
          heap s3 q = heap s q"
    by (cases "rs = []") (simp_all add: s3_def s2_def s1_def)
  have tgt: "bytes_at (heap s3) (if rs = [] then parent else last rs) = None"
    using pnew pb retnew by (cases "rs = []") (simp_all add: s3_def s2_def s1_def)
  have "create_leaf s parent key count value =
       (case exec (create_leaf_value new buf count value) s3 of
          Inl e \<Rightarrow> Some (Inl e)
        | Inr s4 \<Rightarrow> Some (Inr (s4, if rs = [] then NULL else last rs)))"
    using p fl m1 e1 m2 by (simp add: create_leaf_def)
  with raw3 l3 frame tgt show ?thesis by blast
qed

lemma create_leaf_total:
  assumes pn: "node_at (heap s) parent = Some pn" and ch: "chain (heap s) (n_east pn) rs"
    and off: "offers s = new # buf # rest"
    and fresh: "new \<noteq> NULL" "buf \<noteq> NULL" "new \<noteq> buf" "heap s new = None" "heap s buf = None"
    and key: "strncpy_bytes key 127 \<noteq> None"
    and val: "unat count = 0 \<or>
       (unat value \<noteq> (if rs = [] then parent else last rs) \<and>
        strncpy_bytes (case bytes_at (heap s) (unat value) of None \<Rightarrow> [] | Some b \<Rightarrow> b)
          (unat count) \<noteq> None)"
  shows "\<exists>s'. create_leaf s parent key count value =
                 Some (Inr (s', if rs = [] then NULL else last rs))"
proof -
  from create_leaf_upto_value[OF pn ch off fresh key, of count "value"] obtain s3 l where
    raw3: "heap s3 buf = Some (Raw (unat count))" and l3: "heap s3 new = Some (OLeaf l)"
    and frame: "\<forall>q. q \<noteq> new \<longrightarrow> q \<noteq> buf \<longrightarrow> q \<noteq> (if rs = [] then parent else last rs) \<longrightarrow>
          heap s3 q = heap s q"
    and c: "create_leaf s parent key count value =
       (case exec (create_leaf_value new buf count value) s3 of
          Inl e \<Rightarrow> Some (Inl e)
        | Inr s4 \<Rightarrow> Some (Inr (s4, if rs = [] then NULL else last rs)))"
    by blast
  have "\<exists>vb. strncpy_bytes (case bytes_at (heap s3) (unat value) of None \<Rightarrow> [] | Some b \<Rightarrow> b)
       (unat count) = Some vb"
  proof (cases "unat count = 0")
    case True
    then show ?thesis by simp
  next
    case False
    with val have v: "unat value \<noteq> (if rs = [] then parent else last rs)"
      and "strncpy_bytes (case bytes_at (heap s) (unat value) of None \<Rightarrow> [] | Some b \<Rightarrow> b)
          (unat count) \<noteq> None" by auto
    then obtain vb where vb: "strncpy_bytes (case bytes_at (heap s) (unat value) of None \<Rightarrow> [] | Some b \<Rightarrow> b)
          (unat count) = Some vb" by auto
    from False obtain k where k: "unat count = Suc k" by (cases "unat count") auto
    with vb obtain src where src: "bytes_at (heap s) (unat value) = Some src"
      by (cases "bytes_at (heap s) (unat value)") auto
    then have "heap s (unat value) \<noteq> None"
      by (auto simp: bytes_at_def split: if_splits option.splits)
    with fresh have vn: "unat value \<noteq> new" "unat value \<noteq> buf" by auto
    with frame v have "heap s3 (unat value) = heap s (unat value)" by simp
    then have "bytes_at (heap s3) (unat value) = bytes_at (heap s) (unat value)"
      by (simp add: bytes_at_def)
    with vb show ?thesis by simp
  qed
  then obtain vb where "strncpy_bytes (case bytes_at (heap s3) (unat value) of None \<Rightarrow> [] | Some b \<Rightarrow> b)
       (unat count) = Some vb" by blast
  from exec_value_block_ok[OF raw3 fresh(2) l3 fresh(1) _ this] fresh c
  show ?thesis by auto
qed

lemma two_leaves_views:
  "node_at (heap (two_leaves as)) root_addr = Some (root_node\<lparr>n_east := 2000\<rparr>)"
  "chain (heap (two_leaves as)) 2000 [2000, 3000]"
  by (simp_all add: two_leaves_def root_addr_def plain_leaf_def)

lemma create_leaf_record:
  assumes "create_leaf s parent key count value = Some (Inr (s', ret))"
  shows "\<exists>kb buf vb. strncpy_bytes key 127 = Some kb \<and>
           leaf_at (heap s') (next_offer s) =
             Some \<lparr>l_west = (if ret = NULL then parent else ret), l_east = NULL,
                   l_key = kb @ [0], l_value = buf, l_size = count, l_tag = TagLeaf\<rparr> \<and>
           buf \<noteq> NULL \<and> bytes_at (heap s') buf = Some vb \<and> length vb = unat count \<and>
           next_offer s \<noteq> NULL \<and> heap s (next_offer s) = None \<and> heap s buf = None"
proof -
  from create_leaf_effect[OF assms] obtain pn rs new buf rest kb vb old where
    e: "chain (heap s) (n_east pn) rs"
    "ret = (if rs = [] then NULL else last rs)"
    "offers s = new # buf # rest"
    "new \<noteq> NULL" "buf \<noteq> NULL" "new \<noteq> buf" "heap s new = None" "heap s buf = None"
    "strncpy_bytes key 127 = Some kb" "length vb = unat count"
    and h': "heap s' =
       (if rs = [] then (heap s)(parent \<mapsto> ONode (pn\<lparr>n_east := new\<rparr>))
        else (heap s)(last rs \<mapsto> OLeaf (old\<lparr>l_east := new\<rparr>)))
       (new \<mapsto> OLeaf \<lparr>l_west = (if rs = [] then parent else last rs), l_east = NULL,
                       l_key = kb @ [0], l_value = buf, l_size = count, l_tag = TagLeaf\<rparr>,
        buf \<mapsto> Bytes vb)"
    by metis
  have r0: "rs \<noteq> [] \<Longrightarrow> last rs \<noteq> NULL" using chain_leaf[OF e(1), of "last rs"] by simp
  have "(if ret = NULL then parent else ret) = (if rs = [] then parent else last rs)"
    using e(2) r0 by auto
  moreover have "heap s' new = Some (OLeaf \<lparr>l_west = (if rs = [] then parent else last rs),
      l_east = NULL, l_key = kb @ [0], l_value = buf, l_size = count, l_tag = TagLeaf\<rparr>)"
    using h' e(6) by simp
  moreover have "heap s' buf = Some (Bytes vb)" using h' by simp
  ultimately show ?thesis using e by (simp add: leaf_at_def bytes_at_def)
qed

section \<open>The value create\_leaf returns\<close>

text \<open>
  C2. A successful \<open>create_leaf\<close> returns the record that was the tail of the
  container's chain before the call (the value \<open>find_last_linear\<close> gives in the state
  before the call, the last record of the chain \<open>rs\<close>), and \<open>NULL\<close> when the chain
  was empty. It is not the created record: that one lives at the address the allocator
  offered, where no leaf was before the call and a tagged leaf is after it.
\<close>

theorem create_leaf_returns_previous_tail:
  assumes "create_leaf s parent key count value = Some (Inr (s', ret))"
  shows "\<exists>pn rs. node_at (heap s) parent = Some pn \<and> chain (heap s) (n_east pn) rs \<and>
           ret = (if rs = [] then NULL else last rs) \<and>
           (n_east pn = NULL \<longrightarrow> ret = NULL) \<and>
           (\<exists>s0. find_last_linear s parent = Some (Inr (s0, ret))) \<and>
           ret \<noteq> next_offer s \<and> leaf_at (heap s) (next_offer s) = None \<and>
           (\<exists>l. leaf_at (heap s') (next_offer s) = Some l \<and> l_tag l = TagLeaf)"
proof -
  from create_leaf_steps[OF assms] obtain s0 where
    fl: "find_last_linear s parent = Some (Inr (s0, ret))" by blast
  from find_last_linear_Inr[OF fl] obtain pn rs where
    pn: "node_at (heap s) parent = Some pn" and ch: "chain (heap s) (n_east pn) rs"
    and ret: "ret = (if rs = [] then NULL else last rs)" by blast
  from create_leaf_chain[OF assms pn ch]
  have new: "next_offer s \<noteq> NULL" "heap s (next_offer s) = None" by auto
  have "ret \<noteq> next_offer s"
  proof (cases "rs = []")
    case True
    with ret new show ?thesis by simp
  next
    case False
    with chain_leaf[OF ch, of "last rs"] leaf_at_heap[of "heap s" "last rs"] new ret
    show ?thesis by auto
  qed
  moreover have "leaf_at (heap s) (next_offer s) = None"
    using new by (simp add: leaf_at_def)
  moreover have "\<exists>l. leaf_at (heap s') (next_offer s) = Some l \<and> l_tag l = TagLeaf"
    using create_leaf_record[OF assms] by auto
  moreover have "n_east pn = NULL \<longrightarrow> ret = NULL" using ch ret by auto
  ultimately show ?thesis using pn ch ret fl
    by (intro exI[of _ pn] exI[of _ rs]) auto
qed

text \<open>
  On the root with the chain 2000, 3000 the call returns 3000 and creates 4000; on the
  freshly initialised root it returns \<open>NULL\<close>.
\<close>

theorem create_leaf_returns_previous_tail_witness:
  "\<exists>s' s''. create_leaf (two_leaves [4000, 4001]) root_addr [107, 49, 0] 0 0 = Some (Inr (s', 3000)) \<and>
     chain (heap (two_leaves [4000, 4001])) 2000 [2000, 3000] \<and>
     next_offer (two_leaves [4000, 4001]) = 4000 \<and>
     (\<exists>l. leaf_at (heap s') 4000 = Some l \<and> l_tag l = TagLeaf) \<and>
     create_leaf (root_init [2000, 2001]) root_addr [107, 49, 0] 0 0 = Some (Inr (s'', NULL))"
proof -
  let ?s = "two_leaves [4000, 4001]"
  have "\<exists>s'. create_leaf ?s root_addr [107, 49, 0] 0 0 =
      Some (Inr (s', if [2000, 3000::nat] = [] then NULL else last [2000, 3000]))"
    by (rule create_leaf_total[OF two_leaves_views(1), where new = 4000 and buf = 4001 and rest = "[]"])
       (simp_all add: two_leaves_views two_leaves_def root_addr_def root_node_def
          plain_leaf_def strncpy_bytes_terminated)
  then obtain s' where c: "create_leaf ?s root_addr [107, 49, 0] 0 0 = Some (Inr (s', 3000))"
    by auto
  let ?t = "root_init [2000, 2001]"
  have "\<exists>s'. create_leaf ?t root_addr [107, 49, 0] 0 0 =
      Some (Inr (s', if ([]::nat list) = [] then NULL else last []))"
    by (rule create_leaf_total[OF root_init_views(1), where new = 2000 and buf = 2001 and rest = "[]"])
       (simp_all add: root_init_def root_node_def root_addr_def strncpy_bytes_terminated)
  then obtain s'' where d: "create_leaf ?t root_addr [107, 49, 0] 0 0 = Some (Inr (s'', NULL))"
    by auto
  have no: "next_offer ?s = 4000" by (simp add: next_offer_def two_leaves_def)
  from create_leaf_returns_previous_tail[OF c] no c d two_leaves_views(2)[of "[4000, 4001]"]
  show ?thesis by auto
qed

lemma create_leaf_offers:
  assumes "create_leaf s parent key count value = Some (Inr (s', ret))"
  shows "\<exists>new buf. offers s = new # buf # offers s' \<and>
           (\<forall>q. heap s' q = None \<longleftrightarrow> heap s q = None \<and> q \<noteq> new \<and> q \<noteq> buf)"
proof -
  from create_leaf_effect[OF assms] obtain pn rs new buf rest kb vb old where
    e: "node_at (heap s) parent = Some pn"
    "rs \<noteq> [] \<Longrightarrow> leaf_at (heap s) (last rs) = Some old"
    "offers s = new # buf # rest" "offers s' = rest"
    and h': "heap s' =
       (if rs = [] then (heap s)(parent \<mapsto> ONode (pn\<lparr>n_east := new\<rparr>))
        else (heap s)(last rs \<mapsto> OLeaf (old\<lparr>l_east := new\<rparr>)))
       (new \<mapsto> OLeaf \<lparr>l_west = (if rs = [] then parent else last rs), l_east = NULL,
                       l_key = kb @ [0], l_value = buf, l_size = count, l_tag = TagLeaf\<rparr>,
        buf \<mapsto> Bytes vb)"
    by metis
  have "heap s parent \<noteq> None" using node_at_heap[OF e(1)] by simp
  moreover have "rs \<noteq> [] \<Longrightarrow> heap s (last rs) \<noteq> None"
    using e(2) leaf_at_heap[of "heap s" "last rs" old] by simp
  ultimately have "\<forall>q. heap s' q = None \<longleftrightarrow> heap s q = None \<and> q \<noteq> new \<and> q \<noteq> buf"
    using h' by auto
  with e(3,4) show ?thesis by simp
qed

section \<open>Three appends\<close>

text \<open>
  C8. Three successful \<open>create_leaf\<close> calls on a container whose leaf chain is empty
  create the records \<open>r1\<close>, \<open>r2\<close>, \<open>r3\<close> (the addresses the allocator offered to
  the three calls, each unallocated before its call). Afterwards the container's leaf
  chain head is \<open>r1\<close>, the sibling link of \<open>r1\<close> is \<open>r2\<close>, that of \<open>r2\<close> is
  \<open>r3\<close>, and that of \<open>r3\<close> is \<open>NULL\<close>; the three records are distinct.
\<close>

theorem three_appends_chain:
  assumes "node_at (heap s) c = Some pn" "n_east pn = NULL"
    "create_leaf s c k1 n1 v1 = Some (Inr (s1, x1))"
    "create_leaf s1 c k2 n2 v2 = Some (Inr (s2, x2))"
    "create_leaf s2 c k3 n3 v3 = Some (Inr (s3, x3))"
  shows "\<exists>cn l1 l2 l3.
           node_at (heap s3) c = Some cn \<and> n_east cn = next_offer s \<and>
           leaf_at (heap s3) (next_offer s) = Some l1 \<and> l_east l1 = next_offer s1 \<and>
           leaf_at (heap s3) (next_offer s1) = Some l2 \<and> l_east l2 = next_offer s2 \<and>
           leaf_at (heap s3) (next_offer s2) = Some l3 \<and> l_east l3 = NULL \<and>
           distinct [NULL, next_offer s, next_offer s1, next_offer s2] \<and>
           heap s (next_offer s) = None \<and> heap s1 (next_offer s1) = None \<and>
           heap s2 (next_offer s2) = None \<and>
           x1 = NULL \<and> x2 = next_offer s \<and> x3 = next_offer s1"
proof -
  let ?r1 = "next_offer s" and ?r2 = "next_offer s1" and ?r3 = "next_offer s2"
  have ch0: "chain (heap s) (n_east pn) []" using assms(2) by simp
  from create_leaf_chain[OF assms(3,1) ch0] obtain pn1 where
    1: "node_at (heap s1) c = Some pn1" "chain (heap s1) (n_east pn1) [?r1]"
    "x1 = NULL" "?r1 \<noteq> NULL" "heap s ?r1 = None" by auto
  from create_leaf_chain[OF assms(4) 1(1,2)] obtain pn2 where
    2: "node_at (heap s2) c = Some pn2" "chain (heap s2) (n_east pn2) [?r1, ?r2]"
    "x2 = ?r1" "?r2 \<noteq> NULL" "heap s1 ?r2 = None" by auto
  from create_leaf_chain[OF assms(5) 2(1,2)] obtain pn3 where
    3: "node_at (heap s3) c = Some pn3" "chain (heap s3) (n_east pn3) [?r1, ?r2, ?r3]"
    "x3 = ?r2" "?r3 \<noteq> NULL" "heap s2 ?r3 = None" by auto
  from chain_distinct[OF 3(2)] have d: "distinct [?r1, ?r2, ?r3]" .
  from 3(2) obtain l1 l2 l3 where
    "n_east pn3 = ?r1" "leaf_at (heap s3) ?r1 = Some l1" "l_east l1 = ?r2"
    "leaf_at (heap s3) ?r2 = Some l2" "l_east l2 = ?r3"
    "leaf_at (heap s3) ?r3 = Some l3" "l_east l3 = NULL"
    by (auto split: option.splits)
  with 1 2 3 d show ?thesis by auto
qed


text \<open>Three appends to the freshly initialised root create 2000, 3000 and 4000.\<close>

theorem three_appends_chain_witness:
  "\<exists>s1 s2 s3.
     node_at (heap (root_init [2000, 2001, 3000, 3001, 4000, 4001])) root_addr = Some root_node \<and>
     n_east root_node = NULL \<and>
     create_leaf (root_init [2000, 2001, 3000, 3001, 4000, 4001]) root_addr [107, 49, 0] 0 0
       = Some (Inr (s1, NULL)) \<and>
     create_leaf s1 root_addr [107, 50, 0] 0 0 = Some (Inr (s2, 2000)) \<and>
     create_leaf s2 root_addr [107, 51, 0] 0 0 = Some (Inr (s3, 3000)) \<and>
     (\<exists>cn l1 l2 l3.
        node_at (heap s3) root_addr = Some cn \<and> n_east cn = 2000 \<and>
        leaf_at (heap s3) 2000 = Some l1 \<and> l_east l1 = 3000 \<and>
        leaf_at (heap s3) 3000 = Some l2 \<and> l_east l2 = 4000 \<and>
        leaf_at (heap s3) 4000 = Some l3 \<and> l_east l3 = NULL)"
proof -
  let ?s = "root_init [2000, 2001, 3000, 3001, 4000, 4001]"
  have pn: "node_at (heap ?s) root_addr = Some root_node" by (rule root_init_views)
  have e0: "n_east root_node = NULL" by (simp add: root_node_def)
  have ch0: "chain (heap ?s) (n_east root_node) []" by (simp add: e0)
  have free0: "heap ?s q = None \<longleftrightarrow> q \<noteq> root_addr" for q
    by (simp add: root_init_def)
  have k: "strncpy_bytes [107, 49, 0] 127 \<noteq> None" "strncpy_bytes [107, 50, 0] 127 \<noteq> None"
    "strncpy_bytes [107, 51, 0] 127 \<noteq> None"
    by (simp_all add: strncpy_bytes_terminated)
  have "\<exists>s'. create_leaf ?s root_addr [107, 49, 0] 0 0 =
      Some (Inr (s', if ([]::nat list) = [] then NULL else last []))"
    by (rule create_leaf_total[OF pn ch0, where new = 2000 and buf = 2001
          and rest = "[3000, 3001, 4000, 4001]"])
       (simp_all add: free0 k root_addr_def, simp add: root_init_def)
  then obtain s1 where c1: "create_leaf ?s root_addr [107, 49, 0] 0 0 = Some (Inr (s1, NULL))"
    by auto
  from create_leaf_chain[OF c1 pn ch0] obtain pn1 where
    pn1: "node_at (heap s1) root_addr = Some pn1" and ch1: "chain (heap s1) (n_east pn1) [2000]"
    by (auto simp: next_offer_def root_init_def)
  from create_leaf_offers[OF c1] have o1: "offers s1 = [3000, 3001, 4000, 4001]"
    and free1: "heap s1 q = None \<longleftrightarrow> q \<noteq> root_addr \<and> q \<noteq> 2000 \<and> q \<noteq> 2001" for q
    by (auto simp: root_init_def)
  have "\<exists>s'. create_leaf s1 root_addr [107, 50, 0] 0 0 =
      Some (Inr (s', if [2000::nat] = [] then NULL else last [2000]))"
    by (rule create_leaf_total[OF pn1 ch1, where new = 3000 and buf = 3001
          and rest = "[4000, 4001]"])
       (simp_all add: free1 o1 k root_addr_def)
  then obtain s2 where c2: "create_leaf s1 root_addr [107, 50, 0] 0 0 = Some (Inr (s2, 2000))"
    by auto
  from create_leaf_chain[OF c2 pn1 ch1] o1 obtain pn2 where
    pn2: "node_at (heap s2) root_addr = Some pn2"
    and ch2: "chain (heap s2) (n_east pn2) [2000, 3000]"
    by (auto simp: next_offer_def)
  from create_leaf_offers[OF c2] o1 free1 have o2: "offers s2 = [4000, 4001]"
    and free2: "heap s2 q = None \<longleftrightarrow>
      q \<noteq> root_addr \<and> q \<noteq> 2000 \<and> q \<noteq> 2001 \<and> q \<noteq> 3000 \<and> q \<noteq> 3001" for q
    by auto
  have "\<exists>s'. create_leaf s2 root_addr [107, 51, 0] 0 0 =
      Some (Inr (s', if [2000, 3000::nat] = [] then NULL else last [2000, 3000]))"
    by (rule create_leaf_total[OF pn2 ch2, where new = 4000 and buf = 4001 and rest = "[]"])
       (simp_all add: free2 o2 k root_addr_def)
  then obtain s3 where c3: "create_leaf s2 root_addr [107, 51, 0] 0 0 = Some (Inr (s3, 3000))"
    by auto
  have no: "next_offer ?s = 2000" "next_offer s1 = 3000" "next_offer s2 = 4000"
    using o1 o2 by (simp_all add: next_offer_def root_init_def)
  from three_appends_chain[OF pn e0 c1 c2 c3] no pn e0 c1 c2 c3
  show ?thesis by auto
qed

lemma strncpy_value_Inr:
  assumes "strncpy_value p v n u = Inr u'"
  shows "\<exists>l vb. leaf_at (heap u) p = Some l \<and> (n = 0 \<or> unat v \<noteq> l_value l) \<and>
     strncpy_bytes (case bytes_at (heap u) (unat v) of None \<Rightarrow> [] | Some b \<Rightarrow> b) n = Some vb"
  using assms by (auto simp: strncpy_value_def split: option.splits if_splits)

lemma exec_value_block_split:
  assumes "heap s3 buf = Some (Raw (unat count))" "buf \<noteq> NULL"
    "heap s3 new = Some (OLeaf l)" "new \<noteq> NULL" "buf \<noteq> new"
  shows "exec (create_leaf_value new buf count value) s3 =
     (case strncpy_value new value (unat count)
             (s3\<lparr>heap := (heap s3)(new \<mapsto> OLeaf (l\<lparr>l_value := buf\<rparr>),
                        buf \<mapsto> Bytes (replicate (unat count) 0))\<rparr>) of
        Inl e \<Rightarrow> Inl e
      | Inr u' \<Rightarrow> set_l_size new count u')"
  using assms
  by (simp add: create_leaf_value_def set_l_value_def zero_value_def assert_value_def
      upd_leaf_def zero_def obj_size_def leaf_at_def split: sum.splits)

lemma exec_value_block_src:
  assumes "heap s3 buf = Some (Raw (unat count))" "buf \<noteq> NULL"
    "heap s3 new = Some (OLeaf l)" "new \<noteq> NULL" "buf \<noteq> new"
    "exec (create_leaf_value new buf count value) s3 = Inr s4"
  shows "\<exists>vb. strncpy_bytes (case bytes_at (heap s3) (unat value) of None \<Rightarrow> [] | Some b \<Rightarrow> b)
       (unat count) = Some vb"
proof (cases "unat count = 0")
  case True
  then show ?thesis by simp
next
  case False
  let ?u = "s3\<lparr>heap := (heap s3)(new \<mapsto> OLeaf (l\<lparr>l_value := buf\<rparr>),
                        buf \<mapsto> Bytes (replicate (unat count) 0))\<rparr>"
  from assms(6) exec_value_block_split[OF assms(1-5), of "value"]
  obtain u' where "strncpy_value new value (unat count) ?u = Inr u'"
    by (auto split: sum.splits)
  from strncpy_value_Inr[OF this] False assms(4,5) obtain vb where
    ne: "unat value \<noteq> buf"
    and vb: "strncpy_bytes (case bytes_at (heap ?u) (unat value) of None \<Rightarrow> [] | Some b \<Rightarrow> b)
       (unat count) = Some vb" by auto
  have "bytes_at (heap ?u) (unat value) = bytes_at (heap s3) (unat value)"
    using ne assms(3,4) by (simp add: bytes_at_def)
  with vb show ?thesis by simp
qed

lemma create_leaf_any_key:
  assumes ok: "create_leaf s parent key count value = Some (Inr (s', ret))"
    and k': "strncpy_bytes key' 127 \<noteq> None"
  shows "\<exists>s''. create_leaf s parent key' count value = Some (Inr (s'', ret))"
proof (rule create_leaf_run[OF ok])
  fix s0 pn rs old new buf rest kb s1 s2 s3
  assume r: "parent \<noteq> NULL" "find_last_linear s parent = Some (Inr (s0, ret))"
    "heap s0 = heap s" "offers s0 = offers s"
    "node_at (heap s) parent = Some pn"
    "ret = (if rs = [] then NULL else last rs)"
    "rs \<noteq> [] \<Longrightarrow> leaf_at (heap s) (last rs) = Some old"
    "offers s = new # buf # rest"
    "new \<noteq> NULL" "buf \<noteq> NULL" "new \<noteq> buf" "heap s new = None" "heap s buf = None"
    "parent \<noteq> new" "parent \<noteq> buf" "rs \<noteq> [] \<Longrightarrow> last rs \<noteq> new \<and> last rs \<noteq> buf"
    and s1: "s1 = s0\<lparr>heap := (heap s0)(new \<mapsto> Raw sizeof_leaf), offers := buf # rest\<rparr>"
    and s2: "s2 = s1\<lparr>heap :=
       (if rs = [] then (heap s1)(parent \<mapsto> ONode (pn\<lparr>n_east := new\<rparr>))
        else (heap s1)(last rs \<mapsto> OLeaf (old\<lparr>l_east := new\<rparr>)))
       (new \<mapsto> OLeaf \<lparr>l_west = (if rs = [] then parent else last rs), l_east = NULL,
                       l_key = kb @ [0], l_value = NULL, l_size = 0, l_tag = TagLeaf\<rparr>)\<rparr>"
    and s3: "s3 = s2\<lparr>heap := (heap s2)(buf \<mapsto> Raw (unat count)), offers := rest\<rparr>"
    and e2: "exec (create_leaf_value new buf count value) s3 = Inr s'"
  obtain kb' where kb': "strncpy_bytes key' 127 = Some kb'" using k' by auto
  define l0 where "l0 = \<lparr>l_west = (if rs = [] then parent else last rs), l_east = NULL,
                       l_key = kb' @ [0], l_value = NULL, l_size = 0, l_tag = TagLeaf\<rparr>"
  define t2 where "t2 = s1\<lparr>heap :=
       (if rs = [] then (heap s1)(parent \<mapsto> ONode (pn\<lparr>n_east := new\<rparr>))
        else (heap s1)(last rs \<mapsto> OLeaf (old\<lparr>l_east := new\<rparr>)))
       (new \<mapsto> OLeaf l0)\<rparr>"
  define t3 where "t3 = t2\<lparr>heap := (heap t2)(buf \<mapsto> Raw (unat count)), offers := rest\<rparr>"
  have m1: "malloc s0 sizeof_leaf = (s1, new)"
    using r s1 by (simp add: malloc_def)
  have raw1: "heap s1 new = Some (Raw sizeof_leaf)" using s1 by simp
  have pn1: "node_at (heap s1) parent = Some pn" using s1 r by simp
  have e1: "exec (create_leaf_link parent ret new key') s1 = Inr t2"
  proof (cases "rs = []")
    case True
    with exec_link_first[OF raw1 r(9) pn1 r(14), of key' t2] kb' r(6) show ?thesis
      by (simp add: t2_def l0_def)
  next
    case False
    have "leaf_at (heap s1) (last rs) = Some old" using r(7)[OF False] r(16)[OF False] r(3) s1
      by simp
    from exec_link_next[OF raw1 r(9) this, of parent key' t2] r(16)[OF False] False kb' r(6)
    show ?thesis by (simp add: t2_def l0_def)
  qed
  have "heap t2 buf = None" using r s1 by (auto simp: t2_def)
  then have m2: "malloc t2 (unat count) = (t3, buf)"
    using r s1 by (simp add: malloc_def t2_def t3_def)
  have raw3: "heap s3 buf = Some (Raw (unat count))" using s3 by simp
  have n3: "heap s3 new = Some (OLeaf \<lparr>l_west = (if rs = [] then parent else last rs),
       l_east = NULL, l_key = kb @ [0], l_value = NULL, l_size = 0, l_tag = TagLeaf\<rparr>)"
    using s3 s2 r(11) by simp
  from exec_value_block_src[OF raw3 r(10) n3 r(9) r(11)[symmetric] e2] obtain vb where
    vb: "strncpy_bytes (case bytes_at (heap s3) (unat value) of None \<Rightarrow> [] | Some b \<Rightarrow> b)
       (unat count) = Some vb" by blast
  have "heap t3 q = heap s3 q" if "q \<noteq> new" for q
    using that s3 s2 by (simp add: t3_def t2_def)
  moreover have "bytes_at (heap t3) new = None" "bytes_at (heap s3) new = None"
    using n3 r(11) by (simp_all add: t3_def t2_def bytes_at_def)
  ultimately have same: "bytes_at (heap t3) (unat value) = bytes_at (heap s3) (unat value)"
    by (cases "unat value = new") (simp_all add: bytes_at_def)
  have rawt: "heap t3 buf = Some (Raw (unat count))" by (simp add: t3_def)
  have nt: "heap t3 new = Some (OLeaf l0)" using r(11) by (simp add: t3_def t2_def)
  from exec_value_block_ok[OF rawt r(10) nt r(9) r(11)[symmetric]] vb same
  obtain t4 where e2': "exec (create_leaf_value new buf count value) t3 = Inr t4" by auto
  from r(1,2) m1 e1 m2 e2' show ?thesis by (simp add: create_leaf_def find_last_def)
qed

lemma create_node_any_path:
  assumes "create_node s parent path = Inr (s', node)" "node \<noteq> NULL"
    "node_at (heap s) parent = Some pn" "0 \<in> set path'"
  shows "\<exists>t. create_node s parent path' = Inr (t, node)"
proof -
  from create_node_success[OF assms(1-3)] obtain rest where
    off: "offers s = node # rest" and fresh: "heap s node = None" by blast
  then have "snd (malloc s sizeof_node) \<noteq> NULL" using assms(2) by (simp add: malloc_def)
  from create_node_total[OF assms(3) this, of path'] assms(4) obtain t node' where
    c: "create_node s parent path' = Inr (t, node')" and n: "node' \<noteq> NULL"
    by (auto simp: cstring_def)
  from create_node_success[OF c n assms(3)] off have "node' = node" by auto
  with c show ?thesis by blast
qed

lemma takeWhile_replicate_NUL:
  "c \<noteq> 0 \<Longrightarrow> takeWhile (\<lambda>b. b \<noteq> 0) (replicate n c @ [0::byte]) = replicate n c"
  by (induction n) auto

section \<open>Bounded path labels and keys\<close>

text \<open>
  C6. After a successful \<open>create_node\<close> on a container the stored path is an array of
  256 bytes holding a NUL-terminated string: the first 255 bytes of the input string.
  After a successful \<open>create_leaf\<close> the stored key is an array of 128 bytes holding a
  NUL-terminated string: the first 127 bytes of the input string. The length of the
  input never makes a call fail: where a call succeeds, the same call with any other
  path that is a C string, or any other key that is a C string or at least 127 bytes
  long, succeeds too, with the same result.
\<close>

theorem bounded_labels:
  "(create_node s parent path = Inr (sn, node) \<and> node \<noteq> NULL \<and>
    node_at (heap s) parent = Some pn \<longrightarrow>
      (\<exists>nn. node_at (heap sn) node = Some nn \<and> length (n_path nn) = 256 \<and>
            cstring (n_path nn) = Some (take 255 (takeWhile (\<lambda>b. b \<noteq> 0) path))) \<and>
      (\<forall>path'. 0 \<in> set path' \<longrightarrow> (\<exists>t. create_node s parent path' = Inr (t, node)))) \<and>
   (create_leaf s parent key count value = Some (Inr (sl, ret)) \<longrightarrow>
      (\<exists>l. leaf_at (heap sl) (next_offer s) = Some l \<and> length (l_key l) = 128 \<and>
           cstring (l_key l) = Some (take 127 (takeWhile (\<lambda>b. b \<noteq> 0) key))) \<and>
      (\<forall>key'. 0 \<in> set key' \<or> 127 \<le> length key' \<longrightarrow>
          (\<exists>t. create_leaf s parent key' count value = Some (Inr (t, ret)))))"
proof (intro conjI impI)
  assume a: "create_node s parent path = Inr (sn, node) \<and> node \<noteq> NULL \<and>
    node_at (heap s) parent = Some pn"
  then have c: "create_node s parent path = Inr (sn, node)" and n: "node \<noteq> NULL"
    and pn: "node_at (heap s) parent = Some pn" by simp_all
  from create_node_success[OF c n pn] obtain rest str where
    str: "cstring path = Some str"
    and sn: "sn = s\<lparr>heap := (heap s)(parent \<mapsto> ONode (pn\<lparr>n_west := node\<rparr>),
                 node \<mapsto> ONode \<lparr>n_north = parent, n_west = NULL, n_east = NULL,
                     n_path = take 255 str @ 0 # replicate (255 - min (length str) 255) 0,
                     n_tag = TagNode\<rparr>), offers := rest\<rparr>" by blast
  from cstring_no_NUL[OF str] have s0: "0 \<notin> set str" and se: "str = takeWhile (\<lambda>b. b \<noteq> 0) path"
    by blast+
  have "node_at (heap sn) node = Some \<lparr>n_north = parent, n_west = NULL, n_east = NULL,
                     n_path = take 255 str @ 0 # replicate (255 - min (length str) 255) 0,
                     n_tag = TagNode\<rparr>" using sn n by simp
  moreover have "length (take 255 str @ 0 # replicate (255 - min (length str) 255) 0) = 256"
    by simp
  moreover have "cstring (take 255 str @ 0 # replicate (255 - min (length str) 255) 0)
      = Some (take 255 str)" using s0 by (rule cstring_prefix)
  ultimately show "\<exists>nn. node_at (heap sn) node = Some nn \<and> length (n_path nn) = 256 \<and>
            cstring (n_path nn) = Some (take 255 (takeWhile (\<lambda>b. b \<noteq> 0) path))"
    using se by simp
  show "\<forall>path'. 0 \<in> set path' \<longrightarrow> (\<exists>t. create_node s parent path' = Inr (t, node))"
    using create_node_any_path[OF c n pn] by blast
next
  assume c: "create_leaf s parent key count value = Some (Inr (sl, ret))"
  from create_leaf_record[OF c] obtain kb buf where
    kb: "strncpy_bytes key 127 = Some kb"
    and l: "leaf_at (heap sl) (next_offer s) =
             Some \<lparr>l_west = (if ret = NULL then parent else ret), l_east = NULL,
                   l_key = kb @ [0], l_value = buf, l_size = count, l_tag = TagLeaf\<rparr>"
    by blast
  have "length (kb @ [0]) = 128" using strncpy_bytes_length[OF kb] by simp
  moreover have "cstring (kb @ [0]) = Some (take 127 (takeWhile (\<lambda>b. b \<noteq> 0) key))"
    using strncpy_bytes_content[OF kb] by (simp add: cstring_def)
  ultimately show "\<exists>l. leaf_at (heap sl) (next_offer s) = Some l \<and> length (l_key l) = 128 \<and>
           cstring (l_key l) = Some (take 127 (takeWhile (\<lambda>b. b \<noteq> 0) key))"
    using l by simp
  show "\<forall>key'. 0 \<in> set key' \<or> 127 \<le> length key' \<longrightarrow>
          (\<exists>t. create_leaf s parent key' count value = Some (Inr (t, ret)))"
    using create_leaf_any_key[OF c] strncpy_bytes_terminated strncpy_bytes_long by blast
qed

text \<open>A path of 300 bytes and a key of 200 bytes, on the freshly initialised root.\<close>

theorem bounded_labels_witness:
  "\<exists>sn sl.
     create_node (root_init [2000, 2001]) root_addr (replicate 300 97 @ [0]) = Inr (sn, 2000) \<and>
     node_at (heap (root_init [2000, 2001])) root_addr = Some root_node \<and>
     (\<exists>nn. node_at (heap sn) 2000 = Some nn \<and> length (n_path nn) = 256 \<and>
           cstring (n_path nn) = Some (replicate 255 97)) \<and>
     create_leaf (root_init [2000, 2001]) root_addr (replicate 200 107 @ [0]) 0 0
        = Some (Inr (sl, NULL)) \<and>
     (\<exists>l. leaf_at (heap sl) 2000 = Some l \<and> length (l_key l) = 128 \<and>
          cstring (l_key l) = Some (replicate 127 107))"
proof -
  let ?s = "root_init [2000, 2001]"
  have pn: "node_at (heap ?s) root_addr = Some root_node" by (rule root_init_views)
  have "snd (malloc ?s sizeof_node) \<noteq> NULL"
    by (simp add: malloc_root_init root_addr_def)
  from create_node_total[OF pn this, of "replicate 300 97 @ [0]"] obtain sn r where
    c: "create_node ?s root_addr (replicate 300 97 @ [0]) = Inr (sn, r)" and r: "r \<noteq> NULL"
    by (auto simp: cstring_def)
  from create_node_success[OF c r pn] have rv: "r = 2000" by (auto simp: root_init_def)
  have ch0: "chain (heap ?s) (n_east root_node) []" by (simp add: root_node_def)
  have "\<exists>s'. create_leaf ?s root_addr (replicate 200 107 @ [0]) 0 0 =
      Some (Inr (s', if ([]::nat list) = [] then NULL else last []))"
    by (rule create_leaf_total[OF pn ch0, where new = 2000 and buf = 2001 and rest = "[]"])
       (simp_all add: root_init_def root_addr_def strncpy_bytes_terminated)
  then obtain sl where d: "create_leaf ?s root_addr (replicate 200 107 @ [0]) 0 0
      = Some (Inr (sl, NULL))" by auto
  have no: "next_offer ?s = 2000" by (simp add: next_offer_def root_init_def)
  have tw: "takeWhile (\<lambda>b. b \<noteq> 0) (replicate 300 97 @ [0::byte]) = replicate 300 97"
    "takeWhile (\<lambda>b. b \<noteq> 0) (replicate 200 107 @ [0::byte]) = replicate 200 107"
    by (simp_all add: takeWhile_replicate_NUL)
  from bounded_labels[of ?s root_addr "replicate 300 97 @ [0]" sn r root_node
      "replicate 200 107 @ [0]" 0 0 sl NULL] c r rv pn d no tw
  show ?thesis by auto
qed

section \<open>Where a call can abort\<close>

lemma exec_last: "exec (cs @ [c]) s = Inr s2 \<Longrightarrow> \<exists>s'. c s' = Inr s2"
  by (induction cs arbitrary: s) (auto split: sum.splits)

lemma exec_error: "exec cs s = Inl (e, t) \<Longrightarrow> \<exists>c\<in>set cs. \<exists>s'. c s' = Inl (e, t)"
  by (induction cs arbitrary: s) (auto split: sum.splits)

lemma upd_node_error: "upd_node p f s = Inl (e, t) \<Longrightarrow> e = Fault"
  by (auto simp: upd_node_def split: option.splits)

lemma upd_leaf_error: "upd_leaf p f s = Inl (e, t) \<Longrightarrow> e = Fault"
  by (auto simp: upd_leaf_def split: option.splits)

lemma zero_error: "zero p sz s = Inl (e, t) \<Longrightarrow> e = Fault \<or> e = Assert_zero_ptr"
  by (auto simp: zero_def split: option.splits if_splits)

lemma strncpy_key_error: "strncpy_key p src n s = Inl (e, t) \<Longrightarrow> e = Fault"
  by (auto simp: strncpy_key_def split: option.splits if_splits)

lemma strncpy_value_error: "strncpy_value p v n s = Inl (e, t) \<Longrightarrow> e = Fault"
  by (auto simp: strncpy_value_def split: option.splits if_splits)

lemma link_block_errors:
  assumes "exec (create_leaf_link parent leaf new key) s1 = Inl (e, t)"
  shows "e = Assert_new_leaf \<or> e = Fault \<or> e = Assert_zero_ptr"
  using exec_error[OF assms]
  by (auto simp: create_leaf_link_def assert_new_leaf_def set_n_east_def set_l_east_def
      set_l_tag_def set_l_west_def
      dest: upd_node_error upd_leaf_error zero_error strncpy_key_error split: if_splits)

lemma link_block_leaf:
  assumes "exec (create_leaf_link parent leaf new key) s1 = Inr s2"
  shows "new \<noteq> NULL \<and> (\<exists>l. heap s2 new = Some (OLeaf l))"
proof -
  have "create_leaf_link parent leaf new key =
      [assert_new_leaf new,
       (if leaf = NULL then set_n_east parent new else set_l_east leaf new),
       zero new sizeof_leaf, set_l_tag new TagLeaf,
       (if leaf = NULL then set_l_west new parent else set_l_west new leaf)]
      @ [strncpy_key new key 127]"
    by (simp add: create_leaf_link_def)
  with assms exec_last obtain s' where "strncpy_key new key 127 s' = Inr s2" by metis
  then show ?thesis
    by (auto simp: strncpy_key_def split: option.splits if_splits dest: leaf_at_heap)
qed

lemma find_last_linear_errors:
  assumes "find_last_linear s parent = Some (Inl (e, t))"
  shows "e = Assert_find_last_parent \<or> e = Fault"
proof (cases "parent = NULL")
  case True
  with assms show ?thesis by (simp add: find_last_linear_def)
next
  case False
  show ?thesis
  proof (cases "node_at (heap s) parent")
    case None
    with assms False show ?thesis by (simp add: find_last_linear_def)
  next
    case (Some n)
    with assms False have ne: "n_east n \<noteq> NULL"
      by (auto simp: find_last_linear_def reterr_def split: if_splits)
    with assms False Some have "find_last_loop s (n_east n) = Some (Inl (e, t))"
      by (auto simp: find_last_linear_def split: option.splits sum.splits)
    from find_last_loop_result[OF this] show ?thesis by simp
  qed
qed

lemma value_block_errors:
  assumes "exec (create_leaf_link parent leaf new key) s1 = Inr s2"
    "malloc s2 (unat count) = (s3, buf)"
    "exec (create_leaf_value new buf count value) s3 = Inl (e, t)"
  shows "e = Fault \<or> (e = Assert_zero_ptr \<and> buf = NULL)"
proof -
  from link_block_leaf[OF assms(1)] obtain l where
    new: "new \<noteq> NULL" and l: "heap s2 new = Some (OLeaf l)" by blast
  show ?thesis
  proof (cases "buf = NULL")
    case True
    with malloc_cases[OF assms(2)] have "heap s3 = heap s2" by simp
    with l new have "leaf_at (heap s3) new = Some l" by (simp add: leaf_at_def)
    with assms(3) True exec_value_block_null[of new count "value" s3] show ?thesis by simp
  next
    case False
    with malloc_cases[OF assms(2)] obtain rest where
      fresh: "heap s2 buf = None"
      and s3: "s3 = s2\<lparr>heap := (heap s2)(buf \<mapsto> Raw (unat count)), offers := rest\<rparr>"
      by auto
    have bn: "buf \<noteq> new" using fresh l by auto
    have raw3: "heap s3 buf = Some (Raw (unat count))" using s3 by simp
    have l3: "heap s3 new = Some (OLeaf l)" using s3 l bn by simp
    from assms(3) exec_value_block_split[OF raw3 False l3 new bn, of "value"]
    have "e = Fault"
      by (auto simp: set_l_size_def split: sum.splits
          dest: strncpy_value_error upd_leaf_error)
    then show ?thesis by simp
  qed
qed


lemma create_leaf_errors:
  assumes "create_leaf s parent key count value = Some (Inl (e, t))"
  shows "e \<noteq> Assert_leaf_value"
proof (cases "parent = NULL")
  case True
  with assms show ?thesis by (simp add: create_leaf_def)
next
  case p: False
  show ?thesis
  proof (cases "find_last_linear s parent")
    case None
    with assms p show ?thesis by (simp add: create_leaf_def find_last_def)
  next
    case (Some r)
    show ?thesis
    proof (cases r)
      case (Inl x)
      with assms p Some have "find_last_linear s parent = Some (Inl (e, t))"
        by (simp add: create_leaf_def find_last_def)
      from find_last_linear_errors[OF this] show ?thesis by auto
    next
      case (Inr y)
      obtain s0 leaf where y: "y = (s0, leaf)" by (cases y)
      obtain s1 new where m1: "malloc s0 sizeof_leaf = (s1, new)"
        by (cases "malloc s0 sizeof_leaf")
      show ?thesis
      proof (cases "exec (create_leaf_link parent leaf new key) s1")
        case (Inl x)
        with assms p Some Inr y m1
        have "exec (create_leaf_link parent leaf new key) s1 = Inl (e, t)"
          by (simp add: create_leaf_def find_last_def)
        from link_block_errors[OF this] show ?thesis by auto
      next
        case e1: (Inr s2)
        obtain s3 buf where m2: "malloc s2 (unat count) = (s3, buf)"
          by (cases "malloc s2 (unat count)")
        with assms p Some Inr y m1 e1
        have "exec (create_leaf_value new buf count value) s3 = Inl (e, t)"
          by (simp add: create_leaf_def find_last_def split: sum.splits)
        from value_block_errors[OF e1 m2 this] show ?thesis by auto
      qed
    qed
  qed
qed

lemma create_leaf_buf_null:
  assumes "parent \<noteq> NULL" "find_last s parent = Some (Inr (s0, leaf))"
    "malloc s0 sizeof_leaf = (s1, new_leaf)"
    "exec (create_leaf_link parent leaf new_leaf key) s1 = Inr s2"
    "snd (malloc s2 (unat count)) = NULL"
  shows "\<exists>l. new_leaf \<noteq> NULL \<and> heap s2 new_leaf = Some (OLeaf l) \<and>
     exec (take 2 (create_leaf_value new_leaf NULL count value)) (fst (malloc s2 (unat count)))
       = Inl (Assert_zero_ptr, s2\<lparr>heap := (heap s2)(new_leaf \<mapsto> OLeaf (l\<lparr>l_value := NULL\<rparr>)),
                                  offers := tl (offers s2)\<rparr>) \<and>
     create_leaf s parent key count value =
       Some (Inl (Assert_zero_ptr, s2\<lparr>heap := (heap s2)(new_leaf \<mapsto> OLeaf (l\<lparr>l_value := NULL\<rparr>)),
                                     offers := tl (offers s2)\<rparr>))"
proof -
  obtain s3 buf where m2: "malloc s2 (unat count) = (s3, buf)"
    by (cases "malloc s2 (unat count)")
  with assms(5) have buf: "buf = NULL" by simp
  with m2 have s3: "s3 = s2\<lparr>offers := tl (offers s2)\<rparr>"
    by (auto simp: malloc_def split: list.splits if_splits)
  from link_block_leaf[OF assms(4)] obtain l where
    n: "new_leaf \<noteq> NULL" and l: "heap s2 new_leaf = Some (OLeaf l)" by blast
  with s3 have l3: "leaf_at (heap s3) new_leaf = Some l" by (simp add: leaf_at_def)
  have e2: "exec (create_leaf_value new_leaf NULL count value) s3 =
      Inl (Assert_zero_ptr, s3\<lparr>heap := (heap s3)(new_leaf \<mapsto> OLeaf (l\<lparr>l_value := NULL\<rparr>))\<rparr>)"
    using exec_value_block_null[of new_leaf count "value" s3] l3 by simp
  with assms(1-4) m2 buf
  have c: "create_leaf s parent key count value =
      Some (Inl (Assert_zero_ptr, s3\<lparr>heap := (heap s3)(new_leaf \<mapsto> OLeaf (l\<lparr>l_value := NULL\<rparr>))\<rparr>))"
    by (simp add: create_leaf_def)
  have "exec (take 2 (create_leaf_value new_leaf NULL count value)) s3
        = Inl (Assert_zero_ptr, s3\<lparr>heap := (heap s3)(new_leaf \<mapsto> OLeaf (l\<lparr>l_value := NULL\<rparr>))\<rparr>)"
    using l3 n by (simp add: create_leaf_value_def set_l_value_def upd_leaf_def zero_value_def
        zero_def)
  with c m2 n l s3 show ?thesis by simp
qed

section \<open>The check of the value buffer\<close>

text \<open>
  C10. \<open>create_leaf\<close> passes the freshly allocated value buffer to \<open>zero\<close> before
  its own \<open>assert(new_leaf->value)\<close>. So no run of \<open>create_leaf\<close> aborts on that
  assertion; and when the allocation of the value buffer returns \<open>NULL\<close> (the record
  having been allocated and linked), the call aborts on the assertion of \<open>zero\<close>,
  within the first two statements after the allocation, before the check of the value
  buffer is reached.
\<close>

theorem value_check_never_first:
  "(\<forall>t. create_leaf s parent key count value \<noteq> Some (Inl (Assert_leaf_value, t))) \<and>
   (parent \<noteq> NULL \<and> find_last s parent = Some (Inr (s0, leaf)) \<and>
    malloc s0 sizeof_leaf = (s1, new_leaf) \<and>
    exec (create_leaf_link parent leaf new_leaf key) s1 = Inr s2 \<and>
    snd (malloc s2 (unat count)) = NULL \<longrightarrow>
      failure (create_leaf s parent key count value) = Some Assert_zero_ptr \<and>
      (\<exists>t. exec (take 2 (create_leaf_value new_leaf NULL count value))
                (fst (malloc s2 (unat count))) = Inl (Assert_zero_ptr, t) \<and>
           create_leaf s parent key count value = Some (Inl (Assert_zero_ptr, t))))"
proof (intro conjI allI impI)
  fix t
  show "create_leaf s parent key count value \<noteq> Some (Inl (Assert_leaf_value, t))"
    using create_leaf_errors[of s parent key count "value" Assert_leaf_value t] by auto
next
  assume a: "parent \<noteq> NULL \<and> find_last s parent = Some (Inr (s0, leaf)) \<and>
    malloc s0 sizeof_leaf = (s1, new_leaf) \<and>
    exec (create_leaf_link parent leaf new_leaf key) s1 = Inr s2 \<and>
    snd (malloc s2 (unat count)) = NULL"
  then have "parent \<noteq> NULL" "find_last s parent = Some (Inr (s0, leaf))"
    "malloc s0 sizeof_leaf = (s1, new_leaf)"
    "exec (create_leaf_link parent leaf new_leaf key) s1 = Inr s2"
    "snd (malloc s2 (unat count)) = NULL" by simp_all
  from create_leaf_buf_null[OF this, of "value"] obtain t where
    t: "exec (take 2 (create_leaf_value new_leaf NULL count value))
          (fst (malloc s2 (unat count))) = Inl (Assert_zero_ptr, t)"
      "create_leaf s parent key count value = Some (Inl (Assert_zero_ptr, t))" by blast
  then show "failure (create_leaf s parent key count value) = Some Assert_zero_ptr" by simp
  from t show "\<exists>t. exec (take 2 (create_leaf_value new_leaf NULL count value))
                (fst (malloc s2 (unat count))) = Inl (Assert_zero_ptr, t) \<and>
           create_leaf s parent key count value = Some (Inl (Assert_zero_ptr, t))" by blast
qed

text \<open>
  The freshly initialised root with an allocator that offers 2000 and then fails: the
  record is allocated and linked, the allocation of the value buffer fails.
\<close>

lemma root_init_errno: "root_init as\<lparr>errno := NoError\<rparr> = root_init as"
  by (simp add: root_init_def NoError_def)

lemma root_init_find_last: "find_last (root_init as) root_addr = Some (Inr (root_init as, NULL))"
  using find_last_linear_chain[OF root_init_views(1), of as "[]"]
  by (simp add: find_last_def reterr_def root_init_errno root_node_def)

lemma one_offer_run:
  "\<exists>s1 s2. malloc (root_init [2000]) sizeof_leaf = (s1, 2000) \<and>
     exec (create_leaf_link root_addr NULL 2000 [107, 49, 0]) s1 = Inr s2 \<and>
     snd (malloc s2 (unat (3 :: 16 word))) = NULL \<and>
     node_at (heap s2) root_addr = Some (root_node\<lparr>n_east := 2000\<rparr>) \<and>
     (\<exists>l. heap s2 2000 = Some (OLeaf l) \<and> l_value l = NULL \<and> l_tag l = TagLeaf)"
proof -
  let ?s = "root_init [2000]"
  define s1 where "s1 = ?s\<lparr>heap := (heap ?s)(2000 \<mapsto> Raw sizeof_leaf), offers := []\<rparr>"
  have m1: "malloc ?s sizeof_leaf = (s1, 2000)"
    by (simp add: malloc_def root_init_def s1_def root_addr_def)
  have raw1: "heap s1 2000 = Some (Raw sizeof_leaf)" by (simp add: s1_def)
  have pn1: "node_at (heap s1) root_addr = Some root_node"
    using root_init_views(1)[of "[2000]"] by (simp add: s1_def root_addr_def)
  obtain kb where kb: "strncpy_bytes [107, 49, 0] 127 = Some kb"
    using strncpy_bytes_terminated[of "[107, 49, 0]" 127] by auto
  define s2 where "s2 = s1\<lparr>heap := (heap s1)(root_addr \<mapsto> ONode (root_node\<lparr>n_east := 2000\<rparr>),
                  2000 \<mapsto> OLeaf \<lparr>l_west = root_addr, l_east = NULL, l_key = kb @ [0],
                           l_value = NULL, l_size = 0, l_tag = TagLeaf\<rparr>)\<rparr>"
  have e1: "exec (create_leaf_link root_addr NULL 2000 [107, 49, 0]) s1 = Inr s2"
    using exec_link_first[OF raw1 _ pn1, of "[107, 49, 0]" s2] kb
    by (simp add: root_addr_def s2_def)
  have m2: "snd (malloc s2 (unat (3 :: 16 word))) = NULL"
    by (simp add: malloc_def s1_def s2_def)
  have "node_at (heap s2) root_addr = Some (root_node\<lparr>n_east := 2000\<rparr>)"
    "\<exists>l. heap s2 2000 = Some (OLeaf l) \<and> l_value l = NULL \<and> l_tag l = TagLeaf"
    by (simp_all add: s2_def root_addr_def)
  with m1 e1 m2 show ?thesis by blast
qed

theorem value_check_never_first_witness:
  "\<exists>s1 s2. root_addr \<noteq> NULL \<and>
     find_last (root_init [2000]) root_addr = Some (Inr (root_init [2000], NULL)) \<and>
     malloc (root_init [2000]) sizeof_leaf = (s1, 2000) \<and>
     exec (create_leaf_link root_addr NULL 2000 [107, 49, 0]) s1 = Inr s2 \<and>
     snd (malloc s2 (unat (3 :: 16 word))) = NULL \<and>
     failure (create_leaf (root_init [2000]) root_addr [107, 49, 0] 3 1) = Some Assert_zero_ptr"
proof -
  have p: "root_addr \<noteq> NULL" by (simp add: root_addr_def)
  from one_offer_run obtain s1 s2 where
    r: "malloc (root_init [2000]) sizeof_leaf = (s1, 2000)"
    "exec (create_leaf_link root_addr NULL 2000 [107, 49, 0]) s1 = Inr s2"
    "snd (malloc s2 (unat (3 :: 16 word))) = NULL" by blast
  from value_check_never_first[of "root_init [2000]" root_addr "[107, 49, 0]" 3 1
      "root_init [2000]" NULL s1 2000 s2]
    p root_init_find_last[of "[2000]"] r
  show ?thesis by blast
qed

lemma malloc_fails_state:
  "snd (malloc s sz) = NULL \<Longrightarrow> heap (fst (malloc s sz)) = heap s"
  by (auto simp: malloc_def split: list.splits if_splits)

lemma create_leaf_new_null:
  assumes "parent \<noteq> NULL" "find_last s parent = Some (Inr (s0, leaf))"
    "snd (malloc s0 sizeof_leaf) = NULL"
  shows "create_leaf s parent key count value =
           Some (Inl (Assert_new_leaf, fst (malloc s0 sizeof_leaf))) \<and>
         heap (fst (malloc s0 sizeof_leaf)) = heap s"
proof -
  obtain s1 where m: "malloc s0 sizeof_leaf = (s1, NULL)"
    using assms(3) by (cases "malloc s0 sizeof_leaf") auto
  from assms(2) find_last_linear_Inr[of s parent s0 leaf] have "heap s0 = heap s"
    by (auto simp: find_last_def)
  with assms m malloc_fails_state[of s0 sizeof_leaf] exec_link_null show ?thesis
    by (simp add: create_leaf_def)
qed

section \<open>A failed allocation\<close>

text \<open>
  C4 says that \<open>create_node\<close> and \<open>create_leaf\<close> report a failed allocation by
  returning an empty result. \<open>create_leaf\<close> does not: on the freshly initialised root,
  with an allocator that fails, it aborts on \<open>assert(new_leaf)\<close> and returns nothing.
\<close>

theorem alloc_failure_counterexample:
  "snd (malloc (root_init []) sizeof_leaf) = NULL \<and>
   create_leaf (root_init []) root_addr [107, 49, 0] 3 1 =
     Some (Inl (Assert_new_leaf, root_init []))"
proof -
  have p: "root_addr \<noteq> NULL" by (simp add: root_addr_def)
  have m: "malloc (root_init []) sizeof_leaf = (root_init [], NULL)"
    by (simp add: malloc_def root_init_def)
  with create_leaf_new_null[OF p root_init_find_last[of "[]"], of "[107, 49, 0]" 3 1]
  show ?thesis by simp
qed

text \<open>
  C4, amended. When its allocation fails, \<open>create_node\<close> (called with a parent that is
  not \<open>NULL\<close>) returns \<open>NULL\<close> and leaves the heap as it was. \<open>create_leaf\<close> does
  not return: when the allocation of the record fails it aborts on \<open>assert(new_leaf)\<close>,
  and when the allocation of the value buffer fails it aborts on the assertion of
  \<open>zero\<close>.
\<close>

theorem alloc_failure_outcome:
  "(parent \<noteq> NULL \<and> snd (malloc s sizeof_node) = NULL \<longrightarrow>
      (\<exists>s'. create_node s parent path = Inr (s', NULL) \<and> heap s' = heap s)) \<and>
   (parent \<noteq> NULL \<and> find_last s parent = Some (Inr (s0, leaf)) \<and>
    snd (malloc s0 sizeof_leaf) = NULL \<longrightarrow>
      failure (create_leaf s parent key count value) = Some Assert_new_leaf) \<and>
   (parent \<noteq> NULL \<and> find_last s parent = Some (Inr (s0, leaf)) \<and>
    malloc s0 sizeof_leaf = (s1, new_leaf) \<and>
    exec (create_leaf_link parent leaf new_leaf key) s1 = Inr s2 \<and>
    snd (malloc s2 (unat count)) = NULL \<longrightarrow>
      failure (create_leaf s parent key count value) = Some Assert_zero_ptr)"
proof (intro conjI impI)
  assume "parent \<noteq> NULL \<and> snd (malloc s sizeof_node) = NULL"
  then show "\<exists>s'. create_node s parent path = Inr (s', NULL) \<and> heap s' = heap s"
    using create_node_alloc_fails[of parent s path] malloc_fails_state[of s sizeof_node] by simp
next
  assume "parent \<noteq> NULL \<and> find_last s parent = Some (Inr (s0, leaf)) \<and>
    snd (malloc s0 sizeof_leaf) = NULL"
  then show "failure (create_leaf s parent key count value) = Some Assert_new_leaf"
    using create_leaf_new_null[of parent s s0 leaf key count "value"] by simp
next
  assume a: "parent \<noteq> NULL \<and> find_last s parent = Some (Inr (s0, leaf)) \<and>
    malloc s0 sizeof_leaf = (s1, new_leaf) \<and>
    exec (create_leaf_link parent leaf new_leaf key) s1 = Inr s2 \<and>
    snd (malloc s2 (unat count)) = NULL"
  then have "parent \<noteq> NULL" "find_last s parent = Some (Inr (s0, leaf))"
    "malloc s0 sizeof_leaf = (s1, new_leaf)"
    "exec (create_leaf_link parent leaf new_leaf key) s1 = Inr s2"
    "snd (malloc s2 (unat count)) = NULL" by simp_all
  from create_leaf_buf_null[OF this, of "value"]
  show "failure (create_leaf s parent key count value) = Some Assert_zero_ptr" by auto
qed

text \<open>
  The freshly initialised root, with an allocator that fails at once, and with one that
  offers 2000 and then fails.
\<close>

theorem alloc_failure_outcome_witness:
  "\<exists>s' s1 s2. root_addr \<noteq> NULL \<and> snd (malloc (root_init []) sizeof_node) = NULL \<and>
     create_node (root_init []) root_addr [0] = Inr (s', NULL) \<and>
     find_last (root_init []) root_addr = Some (Inr (root_init [], NULL)) \<and>
     snd (malloc (root_init []) sizeof_leaf) = NULL \<and>
     failure (create_leaf (root_init []) root_addr [107, 49, 0] 3 1) = Some Assert_new_leaf \<and>
     find_last (root_init [2000]) root_addr = Some (Inr (root_init [2000], NULL)) \<and>
     malloc (root_init [2000]) sizeof_leaf = (s1, 2000) \<and>
     exec (create_leaf_link root_addr NULL 2000 [107, 49, 0]) s1 = Inr s2 \<and>
     snd (malloc s2 (unat (3 :: 16 word))) = NULL \<and>
     failure (create_leaf (root_init [2000]) root_addr [107, 49, 0] 3 1) = Some Assert_zero_ptr"
proof -
  have p: "root_addr \<noteq> NULL" by (simp add: root_addr_def)
  have m: "snd (malloc (root_init []) sizeof_node) = NULL"
    "snd (malloc (root_init []) sizeof_leaf) = NULL"
    by (simp_all add: malloc_def root_init_def)
  from one_offer_run obtain s1 s2 where
    r: "malloc (root_init [2000]) sizeof_leaf = (s1, 2000)"
    "exec (create_leaf_link root_addr NULL 2000 [107, 49, 0]) s1 = Inr s2"
    "snd (malloc s2 (unat (3 :: 16 word))) = NULL" by blast
  from alloc_failure_outcome[of root_addr "root_init []" "[0]" "root_init []" NULL
      "[107, 49, 0]" 3 1] p m root_init_find_last[of "[]"]
  obtain s' where a: "create_node (root_init []) root_addr [0] = Inr (s', NULL)"
    "failure (create_leaf (root_init []) root_addr [107, 49, 0] 3 1) = Some Assert_new_leaf"
    by blast
  from alloc_failure_outcome[of root_addr "root_init [2000]" "[0]" "root_init [2000]" NULL
      "[107, 49, 0]" 3 1 s1 2000 s2] p r root_init_find_last[of "[2000]"]
  have b: "failure (create_leaf (root_init [2000]) root_addr [107, 49, 0] 3 1)
      = Some Assert_zero_ptr" by blast
  from a b p m r root_init_find_last[of "[]"] root_init_find_last[of "[2000]"]
  show ?thesis by blast
qed

section \<open>Aborted calls and the heap\<close>

lemma create_node_returns_null:
  assumes "create_node s parent path = Inr (sn, NULL)"
  shows "heap sn = heap s"
proof -
  obtain s1 a where m: "malloc s sizeof_node = (s1, a)" by (cases "malloc s sizeof_node")
  with assms have "a = NULL" "sn = s1"
    by (auto simp: create_node_def split: if_splits sum.splits)
  with m malloc_fails_state[of s sizeof_node] show ?thesis by simp
qed

lemma zero_error_nonnull: "zero p sz s = Inl (e, t) \<Longrightarrow> p \<noteq> NULL \<Longrightarrow> e = Fault"
  by (auto simp: zero_def split: option.splits if_splits)

lemma snprintf_path_error: "snprintf_path p sz src s = Inl (e, t) \<Longrightarrow> e = Fault"
  by (auto simp: snprintf_path_def split: option.splits if_splits)

lemma node_body_errors:
  assumes "exec (create_node_body parent node path) s1 = Inl (e, t)" "node \<noteq> NULL"
  shows "e = Fault"
  using exec_error[OF assms(1)] assms(2)
  by (auto simp: create_node_body_def set_n_west_def set_n_tag_def set_n_north_def
      set_n_east_def
      dest: upd_node_error zero_error_nonnull snprintf_path_error)

lemma create_node_abort:
  assumes "create_node s parent path = Inl (e, t)" "e \<noteq> Fault"
  shows "e = Assert_create_node_parent \<and> t = s"
proof (cases "parent = NULL")
  case True
  with assms show ?thesis by (simp add: create_node_def)
next
  case False
  obtain s1 a where m: "malloc s sizeof_node = (s1, a)" by (cases "malloc s sizeof_node")
  with assms False have "a \<noteq> NULL" "exec (create_node_body parent a path) s1 = Inl (e, t)"
    by (auto simp: create_node_def split: if_splits sum.splits)
  from node_body_errors[OF this(2,1)] assms(2) show ?thesis by simp
qed

lemma find_last_linear_error_state:
  assumes "find_last_linear s parent = Some (Inl (e, t))"
  shows "t = s"
proof (cases "parent = NULL")
  case True
  with assms show ?thesis by (simp add: find_last_linear_def)
next
  case False
  show ?thesis
  proof (cases "node_at (heap s) parent")
    case None
    with assms False show ?thesis by (simp add: find_last_linear_def)
  next
    case (Some n)
    with assms False have ne: "n_east n \<noteq> NULL"
      by (auto simp: find_last_linear_def reterr_def split: if_splits)
    with assms False Some have "find_last_loop s (n_east n) = Some (Inl (e, t))"
      by (auto simp: find_last_linear_def split: option.splits sum.splits)
    from find_last_loop_result[OF this] show ?thesis by simp
  qed
qed

lemma link_block_assert:
  assumes "exec (create_leaf_link parent leaf new key) s1 = Inl (Assert_new_leaf, t)"
  shows "new = NULL \<and> t = s1"
proof (cases "new = NULL")
  case True
  with assms exec_link_null[of parent leaf key s1] show ?thesis by simp
next
  case False
  with assms have "exec
      [(if leaf = NULL then set_n_east parent new else set_l_east leaf new),
       zero new sizeof_leaf, set_l_tag new TagLeaf,
       (if leaf = NULL then set_l_west new parent else set_l_west new leaf),
       strncpy_key new key 127] s1 = Inl (Assert_new_leaf, t)"
    by (simp add: create_leaf_link_def assert_new_leaf_def)
  from exec_error[OF this] False have False
    by (auto simp: set_n_east_def set_l_east_def set_l_tag_def set_l_west_def
        dest: upd_node_error upd_leaf_error zero_error_nonnull strncpy_key_error
        split: if_splits)
  then show ?thesis ..
qed

lemma create_leaf_early_abort:
  assumes "create_leaf s parent key count value = Some (Inl (e, t))"
    "e = Assert_create_leaf_parent \<or> e = Assert_find_last_parent \<or> e = Assert_new_leaf"
  shows "heap t = heap s"
proof (cases "parent = NULL")
  case True
  with assms show ?thesis by (simp add: create_leaf_def)
next
  case p: False
  show ?thesis
  proof (cases "find_last_linear s parent")
    case None
    with assms p show ?thesis by (simp add: create_leaf_def find_last_def)
  next
    case (Some r)
    show ?thesis
    proof (cases r)
      case (Inl x)
      with assms p Some have "find_last_linear s parent = Some (Inl (e, t))"
        by (simp add: create_leaf_def find_last_def)
      from find_last_linear_error_state[OF this] show ?thesis by simp
    next
      case (Inr y)
      obtain s0 leaf where y: "y = (s0, leaf)" by (cases y)
      from Some Inr y find_last_linear_Inr[of s parent s0 leaf] have h0: "heap s0 = heap s"
        by auto
      obtain s1 new where m1: "malloc s0 sizeof_leaf = (s1, new)"
        by (cases "malloc s0 sizeof_leaf")
      show ?thesis
      proof (cases "exec (create_leaf_link parent leaf new key) s1")
        case (Inl x)
        with assms p Some Inr y m1
        have e1: "exec (create_leaf_link parent leaf new key) s1 = Inl (e, t)"
          by (simp add: create_leaf_def find_last_def)
        from link_block_errors[OF e1] assms(2) have "e = Assert_new_leaf" by auto
        with e1 link_block_assert have "new = NULL" "t = s1" by blast+
        with m1 malloc_fails_state[of s0 sizeof_leaf] h0 show ?thesis by simp
      next
        case e1: (Inr s2)
        obtain s3 buf where m2: "malloc s2 (unat count) = (s3, buf)"
          by (cases "malloc s2 (unat count)")
        with assms p Some Inr y m1 e1
        have "exec (create_leaf_value new buf count value) s3 = Inl (e, t)"
          by (simp add: create_leaf_def find_last_def split: sum.splits)
        from value_block_errors[OF e1 m2 this] assms(2) show ?thesis by auto
      qed
    qed
  qed
qed

lemma create_leaf_linked:
  assumes "create_leaf s parent key count value = Some (Inr (sl, ret))"
  shows "(if ret = NULL then leaf_chain_head parent sl = Some (next_offer s)
          else sibling_link ret sl = Some (next_offer s))"
proof (rule create_leaf_effect[OF assms])
  fix pn rs new buf rest kb vb old
  assume e: "node_at (heap s) parent = Some pn" "chain (heap s) (n_east pn) rs"
    "ret = (if rs = [] then NULL else last rs)"
    "rs \<noteq> [] \<Longrightarrow> leaf_at (heap s) (last rs) = Some old"
    "offers s = new # buf # rest"
    "new \<noteq> NULL" "buf \<noteq> NULL" "new \<noteq> buf" "heap s new = None" "heap s buf = None"
    and h': "heap sl =
       (if rs = [] then (heap s)(parent \<mapsto> ONode (pn\<lparr>n_east := new\<rparr>))
        else (heap s)(last rs \<mapsto> OLeaf (old\<lparr>l_east := new\<rparr>)))
       (new \<mapsto> OLeaf \<lparr>l_west = (if rs = [] then parent else last rs), l_east = NULL,
                       l_key = kb @ [0], l_value = buf, l_size = count, l_tag = TagLeaf\<rparr>,
        buf \<mapsto> Bytes vb)"
  have no: "next_offer s = new" using e(5) by simp
  show ?thesis
  proof (cases "rs = []")
    case True
    have "parent \<noteq> new" "parent \<noteq> buf" "parent \<noteq> NULL" using node_at_heap[OF e(1)] e by auto
    with h' True e(3) no show ?thesis by (simp add: leaf_chain_head_def)
  next
    case False
    have lr: "last rs \<noteq> new" "last rs \<noteq> buf" "last rs \<noteq> NULL"
      using e(4)[OF False] leaf_at_heap[of "heap s" "last rs" old] e by auto
    with h' False e(3) no show ?thesis by (simp add: sibling_link_def)
  qed
qed

lemma create_leaf_buf_null_state:
  assumes "parent \<noteq> NULL" "find_last s parent = Some (Inr (s0, leaf))"
    "malloc s0 sizeof_leaf = (s1, new_leaf)"
    "exec (create_leaf_link parent leaf new_leaf key) s1 = Inr s2"
    "snd (malloc s2 (unat count)) = NULL"
  shows "\<exists>t. create_leaf s parent key count value = Some (Inl (Assert_zero_ptr, t)) \<and>
     (if leaf = NULL then leaf_chain_head parent t = Some new_leaf
      else sibling_link leaf t = Some new_leaf) \<and>
     value_pointer new_leaf t = Some NULL \<and> leaf_tag new_leaf t = Some TagLeaf \<and>
     heap s new_leaf = None"
proof -
  from assms(2) find_last_linear_Inr[of s parent s0 leaf] obtain pn rs where
    pn: "node_at (heap s) parent = Some pn" and ch: "chain (heap s) (n_east pn) rs"
    and ret: "leaf = (if rs = [] then NULL else last rs)"
    and h0: "heap s0 = heap s" by (auto simp: find_last_def)
  from link_block_leaf[OF assms(4)] have new0: "new_leaf \<noteq> NULL" by simp
  with malloc_cases[OF assms(3)] obtain rest1 where
    fresh1: "heap s0 new_leaf = None"
    and s1: "s1 = s0\<lparr>heap := (heap s0)(new_leaf \<mapsto> Raw sizeof_leaf), offers := rest1\<rparr>" by auto
  have raw1: "heap s1 new_leaf = Some (Raw sizeof_leaf)" using s1 by simp
  have pnew: "parent \<noteq> new_leaf" using node_at_heap[OF pn] fresh1 h0 by auto
  have pn1: "node_at (heap s1) parent = Some pn" using s1 pnew pn h0 by simp
  from create_leaf_buf_null[OF assms, of "value"] obtain l where
    l: "heap s2 new_leaf = Some (OLeaf l)"
    and c: "create_leaf s parent key count value =
       Some (Inl (Assert_zero_ptr, s2\<lparr>heap := (heap s2)(new_leaf \<mapsto> OLeaf (l\<lparr>l_value := NULL\<rparr>)),
                                     offers := tl (offers s2)\<rparr>))" by blast
  let ?t = "s2\<lparr>heap := (heap s2)(new_leaf \<mapsto> OLeaf (l\<lparr>l_value := NULL\<rparr>)),
                                     offers := tl (offers s2)\<rparr>"
  have "(if leaf = NULL then leaf_chain_head parent ?t = Some new_leaf
      else sibling_link leaf ?t = Some new_leaf) \<and> l_tag l = TagLeaf"
  proof (cases "rs = []")
    case True
    with assms(4) ret exec_link_first[OF raw1 new0 pn1 pnew, of key s2] l pnew
      node_at_heap[OF pn]
    show ?thesis by (auto simp: leaf_chain_head_def)
  next
    case False
    from chain_last[OF ch False] obtain old where old: "leaf_at (heap s) (last rs) = Some old"
      by blast
    have rn: "last rs \<noteq> new_leaf" "last rs \<noteq> NULL"
      using leaf_at_heap[OF old] fresh1 h0 by auto
    have "leaf_at (heap s1) (last rs) = Some old" using s1 old rn h0 by simp
    from exec_link_next[OF raw1 new0 this rn(1), of parent key s2] assms(4) ret False l rn
    show ?thesis by (auto simp: sibling_link_def)
  qed
  moreover have "value_pointer new_leaf ?t = Some NULL" "leaf_tag new_leaf ?t = Some (l_tag l)"
    using new0 by (simp_all add: value_pointer_def leaf_tag_def)
  ultimately show ?thesis using c fresh1 h0 by auto
qed

section \<open>What an aborted call leaves behind\<close>

text \<open>
  C5 says that a call either constructs and links the new entity completely or leaves the
  tree as it was. On the freshly initialised root, with an allocator that offers 2000 and
  then fails, \<open>create_leaf\<close> aborts on the assertion of \<open>zero\<close>; the leaf chain
  head of the root, \<open>NULL\<close> before the call, is then 2000, and the record at 2000 has
  no value buffer.
\<close>

theorem partial_link_counterexample:
  "failure (create_leaf (root_init [2000]) root_addr [107, 49, 0] 3 1) = Some Assert_zero_ptr \<and>
   leaf_chain_head root_addr (root_init [2000]) = Some NULL \<and>
   Option.bind (final_state (create_leaf (root_init [2000]) root_addr [107, 49, 0] 3 1))
     (leaf_chain_head root_addr) = Some 2000 \<and>
   Option.bind (final_state (create_leaf (root_init [2000]) root_addr [107, 49, 0] 3 1))
     (value_pointer 2000) = Some NULL"
proof -
  have p: "root_addr \<noteq> NULL" by (simp add: root_addr_def)
  from one_offer_run obtain s1 s2 where
    r: "malloc (root_init [2000]) sizeof_leaf = (s1, 2000)"
    "exec (create_leaf_link root_addr NULL 2000 [107, 49, 0]) s1 = Inr s2"
    "snd (malloc s2 (unat (3 :: 16 word))) = NULL" by blast
  from create_leaf_buf_null_state[OF p root_init_find_last[of "[2000]"] r, of 1]
  obtain t where "create_leaf (root_init [2000]) root_addr [107, 49, 0] 3 1
      = Some (Inl (Assert_zero_ptr, t))"
    "leaf_chain_head root_addr t = Some 2000" "value_pointer 2000 t = Some NULL"
    by auto
  moreover have "leaf_chain_head root_addr (root_init [2000]) = Some NULL"
    using root_init_views(1)[of "[2000]"] by (simp add: leaf_chain_head_def root_node_def)
  ultimately show ?thesis by simp
qed

text \<open>
  C5, amended. \<open>create_node\<close> on a container either returns the new node, linked from
  the parent, tagged, with its parent link, empty links and bounded path, or returns
  \<open>NULL\<close> with the heap as it was; when it aborts on its assertion the state is as it
  was. \<open>create_leaf\<close> either returns with the new record linked at the end of the
  chain and complete (tag, links, key, size, a value buffer of \<open>count\<close> bytes), or
  aborts. When it aborts on the assertions about the parent or on \<open>assert(new_leaf)\<close>
  the heap is as it was. When the allocation of the value buffer fails it aborts on the
  assertion of \<open>zero\<close> with the new record already linked into the chain and tagged,
  its value pointer \<open>NULL\<close>. (Runs that end in a fault, which C leaves undefined, are
  not covered.)
\<close>

theorem construct_or_keep:
  "(node_at (heap s) parent = Some pn \<and> create_node s parent path = Inr (sn, node) \<longrightarrow>
      (if node = NULL then heap sn = heap s
       else child_link parent sn = Some node \<and> node_tag node sn = Some TagNode \<and>
            (\<exists>nn. node_at (heap sn) node = Some nn \<and> n_north nn = parent \<and>
                  n_west nn = NULL \<and> n_east nn = NULL \<and>
                  cstring (n_path nn) = Some (take 255 (takeWhile (\<lambda>b. b \<noteq> 0) path))))) \<and>
   (create_node s parent path = Inl (e, t) \<and> e \<noteq> Fault \<longrightarrow> t = s) \<and>
   (create_leaf s parent key count value = Some (Inr (sl, ret)) \<longrightarrow>
      (if ret = NULL then leaf_chain_head parent sl = Some (next_offer s)
       else sibling_link ret sl = Some (next_offer s)) \<and>
      (\<exists>l vb. leaf_at (heap sl) (next_offer s) = Some l \<and> l_tag l = TagLeaf \<and>
          l_east l = NULL \<and> l_west l = (if ret = NULL then parent else ret) \<and>
          l_size l = count \<and>
          cstring (l_key l) = Some (take 127 (takeWhile (\<lambda>b. b \<noteq> 0) key)) \<and>
          bytes_at (heap sl) (l_value l) = Some vb \<and> length vb = unat count)) \<and>
   (create_leaf s parent key count value = Some (Inl (e, t)) \<and>
    (e = Assert_create_leaf_parent \<or> e = Assert_find_last_parent \<or> e = Assert_new_leaf) \<longrightarrow>
      heap t = heap s) \<and>
   (parent \<noteq> NULL \<and> find_last s parent = Some (Inr (s0, leaf)) \<and>
    malloc s0 sizeof_leaf = (s1, new_leaf) \<and>
    exec (create_leaf_link parent leaf new_leaf key) s1 = Inr s2 \<and>
    snd (malloc s2 (unat count)) = NULL \<longrightarrow>
      (\<exists>t. create_leaf s parent key count value = Some (Inl (Assert_zero_ptr, t)) \<and>
           (if leaf = NULL then leaf_chain_head parent t = Some new_leaf
            else sibling_link leaf t = Some new_leaf) \<and>
           value_pointer new_leaf t = Some NULL \<and> leaf_tag new_leaf t = Some TagLeaf \<and>
           heap s new_leaf = None))"
proof (intro conjI impI)
  assume a: "node_at (heap s) parent = Some pn \<and> create_node s parent path = Inr (sn, node)"
  show "if node = NULL then heap sn = heap s
       else child_link parent sn = Some node \<and> node_tag node sn = Some TagNode \<and>
            (\<exists>nn. node_at (heap sn) node = Some nn \<and> n_north nn = parent \<and>
                  n_west nn = NULL \<and> n_east nn = NULL \<and>
                  cstring (n_path nn) = Some (take 255 (takeWhile (\<lambda>b. b \<noteq> 0) path)))"
  proof (cases "node = NULL")
    case True
    with a create_node_returns_null[of s parent path sn] show ?thesis by simp
  next
    case False
    from a have c: "create_node s parent path = Inr (sn, node)"
      and pn: "node_at (heap s) parent = Some pn" by simp_all
    from create_node_success[OF c False pn] obtain rest str where
      str: "cstring path = Some str" and np: "node \<noteq> parent"
      and sn: "sn = s\<lparr>heap := (heap s)(parent \<mapsto> ONode (pn\<lparr>n_west := node\<rparr>),
                 node \<mapsto> ONode \<lparr>n_north = parent, n_west = NULL, n_east = NULL,
                     n_path = take 255 str @ 0 # replicate (255 - min (length str) 255) 0,
                     n_tag = TagNode\<rparr>), offers := rest\<rparr>" by blast
    from cstring_no_NUL[OF str] have s0: "0 \<notin> set str"
      and se: "str = takeWhile (\<lambda>b. b \<noteq> 0) path" by blast+
    have p0: "parent \<noteq> NULL" using node_at_heap[OF pn] by simp
    have "child_link parent sn = Some node" "node_tag node sn = Some TagNode"
      using sn np p0 False by (simp_all add: child_link_def node_tag_def)
    moreover have "node_at (heap sn) node = Some \<lparr>n_north = parent, n_west = NULL, n_east = NULL,
                     n_path = take 255 str @ 0 # replicate (255 - min (length str) 255) 0,
                     n_tag = TagNode\<rparr>" using sn False by simp
    moreover have "cstring (take 255 str @ 0 # replicate (255 - min (length str) 255) 0)
      = Some (take 255 str)" using s0 by (rule cstring_prefix)
    ultimately show ?thesis using False se by simp
  qed
next
  assume "create_node s parent path = Inl (e, t) \<and> e \<noteq> Fault"
  then show "t = s" using create_node_abort[of s parent path e t] by simp
next
  assume c: "create_leaf s parent key count value = Some (Inr (sl, ret))"
  show "if ret = NULL then leaf_chain_head parent sl = Some (next_offer s)
       else sibling_link ret sl = Some (next_offer s)"
    using c by (rule create_leaf_linked)
  from create_leaf_record[OF c] obtain kb buf vb where
    kb: "strncpy_bytes key 127 = Some kb"
    and l: "leaf_at (heap sl) (next_offer s) =
             Some \<lparr>l_west = (if ret = NULL then parent else ret), l_east = NULL,
                   l_key = kb @ [0], l_value = buf, l_size = count, l_tag = TagLeaf\<rparr>"
    and b: "bytes_at (heap sl) buf = Some vb" "length vb = unat count"
    by blast
  have "cstring (kb @ [0]) = Some (take 127 (takeWhile (\<lambda>b. b \<noteq> 0) key))"
    using strncpy_bytes_content[OF kb] by (simp add: cstring_def)
  with l b show "\<exists>l vb. leaf_at (heap sl) (next_offer s) = Some l \<and> l_tag l = TagLeaf \<and>
          l_east l = NULL \<and> l_west l = (if ret = NULL then parent else ret) \<and>
          l_size l = count \<and>
          cstring (l_key l) = Some (take 127 (takeWhile (\<lambda>b. b \<noteq> 0) key)) \<and>
          bytes_at (heap sl) (l_value l) = Some vb \<and> length vb = unat count"
    by simp
next
  assume "create_leaf s parent key count value = Some (Inl (e, t)) \<and>
    (e = Assert_create_leaf_parent \<or> e = Assert_find_last_parent \<or> e = Assert_new_leaf)"
  then show "heap t = heap s"
    using create_leaf_early_abort[of s parent key count "value" e t] by simp
next
  assume a: "parent \<noteq> NULL \<and> find_last s parent = Some (Inr (s0, leaf)) \<and>
    malloc s0 sizeof_leaf = (s1, new_leaf) \<and>
    exec (create_leaf_link parent leaf new_leaf key) s1 = Inr s2 \<and>
    snd (malloc s2 (unat count)) = NULL"
  then have "parent \<noteq> NULL" "find_last s parent = Some (Inr (s0, leaf))"
    "malloc s0 sizeof_leaf = (s1, new_leaf)"
    "exec (create_leaf_link parent leaf new_leaf key) s1 = Inr s2"
    "snd (malloc s2 (unat count)) = NULL" by simp_all
  from create_leaf_buf_null_state[OF this, of "value"]
  show "\<exists>t. create_leaf s parent key count value = Some (Inl (Assert_zero_ptr, t)) \<and>
           (if leaf = NULL then leaf_chain_head parent t = Some new_leaf
            else sibling_link leaf t = Some new_leaf) \<and>
           value_pointer new_leaf t = Some NULL \<and> leaf_tag new_leaf t = Some TagLeaf \<and>
           heap s new_leaf = None" .
qed


text \<open>
  On the freshly initialised root: a successful \<open>create_node\<close> and a successful
  \<open>create_leaf\<close>; \<open>create_node\<close> with the parent \<open>NULL\<close>; \<open>create_leaf\<close> with
  an allocator that fails at once, and with one that offers 2000 and then fails.
\<close>

theorem construct_or_keep_witness:
  "\<exists>sn sl s1 s2 t.
     node_at (heap (root_init [2000, 2001])) root_addr = Some root_node \<and>
     create_node (root_init [2000, 2001]) root_addr [0] = Inr (sn, 2000) \<and>
     child_link root_addr sn = Some 2000 \<and> node_tag 2000 sn = Some TagNode \<and>
     create_node (root_init []) NULL [0] = Inl (Assert_create_node_parent, root_init []) \<and>
     create_leaf (root_init [2000, 2001]) root_addr [107, 49, 0] 0 0 = Some (Inr (sl, NULL)) \<and>
     leaf_chain_head root_addr sl = Some 2000 \<and>
     create_leaf (root_init []) root_addr [107, 49, 0] 3 1
       = Some (Inl (Assert_new_leaf, root_init [])) \<and>
     root_addr \<noteq> NULL \<and>
     find_last (root_init [2000]) root_addr = Some (Inr (root_init [2000], NULL)) \<and>
     malloc (root_init [2000]) sizeof_leaf = (s1, 2000) \<and>
     exec (create_leaf_link root_addr NULL 2000 [107, 49, 0]) s1 = Inr s2 \<and>
     snd (malloc s2 (unat (3 :: 16 word))) = NULL \<and>
     create_leaf (root_init [2000]) root_addr [107, 49, 0] 3 1 = Some (Inl (Assert_zero_ptr, t)) \<and>
     leaf_chain_head root_addr t = Some 2000 \<and> value_pointer 2000 t = Some NULL"
proof -
  let ?s = "root_init [2000, 2001]"
  have p: "root_addr \<noteq> NULL" by (simp add: root_addr_def)
  have pn: "node_at (heap ?s) root_addr = Some root_node" by (rule root_init_views)
  have "snd (malloc ?s sizeof_node) \<noteq> NULL"
    by (simp add: malloc_root_init root_addr_def)
  from create_node_total[OF pn this, of "[0]"] obtain sn r where
    c: "create_node ?s root_addr [0] = Inr (sn, r)" and r: "r \<noteq> NULL"
    by (auto simp: cstring_def)
  from create_node_success[OF c r pn] have rv: "r = 2000" by (auto simp: root_init_def)
  have ch0: "chain (heap ?s) (n_east root_node) []" by (simp add: root_node_def)
  have "\<exists>s'. create_leaf ?s root_addr [107, 49, 0] 0 0 =
      Some (Inr (s', if ([]::nat list) = [] then NULL else last []))"
    by (rule create_leaf_total[OF pn ch0, where new = 2000 and buf = 2001 and rest = "[]"])
       (simp_all add: root_init_def root_addr_def strncpy_bytes_terminated)
  then obtain sl where d: "create_leaf ?s root_addr [107, 49, 0] 0 0 = Some (Inr (sl, NULL))"
    by auto
  have no: "next_offer ?s = 2000" by (simp add: next_offer_def root_init_def)
  have n0: "create_node (root_init []) NULL [0] = Inl (Assert_create_node_parent, root_init [])"
    by (simp add: create_node_def)
  have "snd (malloc (root_init []) sizeof_leaf) = NULL" by (simp add: malloc_def root_init_def)
  from create_leaf_new_null[OF p root_init_find_last[of "[]"] this, of "[107, 49, 0]" 3 1]
  have f1: "create_leaf (root_init []) root_addr [107, 49, 0] 3 1
       = Some (Inl (Assert_new_leaf, root_init []))"
    by (simp add: malloc_def root_init_def)
  from one_offer_run obtain s1 s2 where
    o: "malloc (root_init [2000]) sizeof_leaf = (s1, 2000)"
    "exec (create_leaf_link root_addr NULL 2000 [107, 49, 0]) s1 = Inr s2"
    "snd (malloc s2 (unat (3 :: 16 word))) = NULL" by blast
  note fl = root_init_find_last[of "[2000]"]
  from construct_or_keep[of ?s root_addr root_node "[0]" sn r Assert_create_node_parent
      "root_init []" "[107, 49, 0]" 0 0 sl NULL] pn c r rv d no
  have A: "child_link root_addr sn = Some 2000" "node_tag 2000 sn = Some TagNode"
    "leaf_chain_head root_addr sl = Some 2000" by auto
  from construct_or_keep[of "root_init [2000]" root_addr root_node "[0]" sn r
      Assert_create_node_parent "root_init []" "[107, 49, 0]" 3 1 sl NULL
      "root_init [2000]" NULL s1 2000 s2] p fl o
  obtain t where B: "create_leaf (root_init [2000]) root_addr [107, 49, 0] 3 1
      = Some (Inl (Assert_zero_ptr, t))"
    "leaf_chain_head root_addr t = Some 2000" "value_pointer 2000 t = Some NULL"
    by auto
  from pn c rv A n0 d f1 p fl o B show ?thesis by blast
qed

section \<open>The value parameter\<close>

text \<open>
  A successful call with a length other than 0 has read its value from a byte array that
  lives at the address given by the number \<open>value\<close>, which is below 256.
\<close>

lemma create_leaf_value_source:
  assumes ok: "create_leaf s parent key count value = Some (Inr (sl, ret))"
    and n: "unat count \<noteq> 0"
  shows "\<exists>src vb buf. bytes_at (heap s) (unat value) = Some src \<and>
           strncpy_bytes src (unat count) = Some vb \<and>
           value_pointer (next_offer s) sl = Some buf \<and> bytes_at (heap sl) buf = Some vb"
proof (rule create_leaf_run[OF ok])
  fix s0 pn rs old new buf rest kb s1 s2 s3
  assume r: "heap s0 = heap s"
    "node_at (heap s) parent = Some pn"
    "rs \<noteq> [] \<Longrightarrow> leaf_at (heap s) (last rs) = Some old"
    "offers s = new # buf # rest"
    "new \<noteq> NULL" "buf \<noteq> NULL" "new \<noteq> buf" "heap s new = None" "heap s buf = None"
    "parent \<noteq> new" "parent \<noteq> buf" "rs \<noteq> [] \<Longrightarrow> last rs \<noteq> new \<and> last rs \<noteq> buf"
    and s1: "s1 = s0\<lparr>heap := (heap s0)(new \<mapsto> Raw sizeof_leaf), offers := buf # rest\<rparr>"
    and s2: "s2 = s1\<lparr>heap :=
       (if rs = [] then (heap s1)(parent \<mapsto> ONode (pn\<lparr>n_east := new\<rparr>))
        else (heap s1)(last rs \<mapsto> OLeaf (old\<lparr>l_east := new\<rparr>)))
       (new \<mapsto> OLeaf \<lparr>l_west = (if rs = [] then parent else last rs), l_east = NULL,
                       l_key = kb @ [0], l_value = NULL, l_size = 0, l_tag = TagLeaf\<rparr>)\<rparr>"
    and s3: "s3 = s2\<lparr>heap := (heap s2)(buf \<mapsto> Raw (unat count)), offers := rest\<rparr>"
    and e2: "exec (create_leaf_value new buf count value) s3 = Inr sl"
  let ?l = "\<lparr>l_west = (if rs = [] then parent else last rs), l_east = NULL,
                       l_key = kb @ [0], l_value = NULL, l_size = 0, l_tag = TagLeaf\<rparr>"
  have raw3: "heap s3 buf = Some (Raw (unat count))" using s3 by simp
  have n3: "heap s3 new = Some (OLeaf ?l)" using s3 s2 r(7) by simp
  from exec_value_block_src[OF raw3 r(6) n3 r(5) r(7)[symmetric] e2] obtain vb where
    vb: "strncpy_bytes (case bytes_at (heap s3) (unat value) of None \<Rightarrow> [] | Some b \<Rightarrow> b)
       (unat count) = Some vb" by blast
  from n obtain k where k: "unat count = Suc k" by (cases "unat count") auto
  with vb obtain src where src: "bytes_at (heap s3) (unat value) = Some src"
    by (cases "bytes_at (heap s3) (unat value)") auto
  have "bytes_at (heap s3) q = None" if "q = new \<or> q = buf \<or> q = (if rs = [] then parent else last rs)" for q
    using that s3 s2 r(5,6,7) by (auto simp: bytes_at_def)
  with src have vq: "unat value \<noteq> new" "unat value \<noteq> buf"
    "unat value \<noteq> (if rs = [] then parent else last rs)" by auto
  have "heap s3 (unat value) = heap s (unat value)"
    using vq s3 s2 s1 r(1) by (cases "rs = []") simp_all
  with src views_agree[of "heap s3" "unat value" "heap s"]
  have src0: "bytes_at (heap s) (unat value) = Some src" by simp
  from exec_value_block_ok[OF raw3 r(6) n3 r(5) r(7)[symmetric] vb] e2
  have sl: "sl = s3\<lparr>heap := (heap s3)(buf \<mapsto> Bytes vb,
                new \<mapsto> OLeaf (?l\<lparr>l_value := buf, l_size := count\<rparr>))\<rparr>" by simp
  have "value_pointer (next_offer s) sl = Some buf" "bytes_at (heap sl) buf = Some vb"
    using sl r(4,5,6,7) by (simp_all add: value_pointer_def)
  with src0 vb src show ?thesis by auto
qed

lemma create_leaf_unreadable_value:
  assumes pn: "node_at (heap s) parent = Some pn" and ch: "chain (heap s) (n_east pn) rs"
    and off: "offers s = new # buf # rest"
    and fresh: "new \<noteq> NULL" "buf \<noteq> NULL" "new \<noteq> buf" "heap s new = None" "heap s buf = None"
    and key: "strncpy_bytes key 127 \<noteq> None"
    and n: "unat count \<noteq> 0"
    and src: "bytes_at (heap s) (unat value) = None"
  shows "failure (create_leaf s parent key count value) = Some Fault"
proof -
  from create_leaf_upto_value[OF pn ch off fresh key, of count "value"] obtain s3 l where
    raw3: "heap s3 buf = Some (Raw (unat count))" and l3: "heap s3 new = Some (OLeaf l)"
    and frame: "\<forall>q. q \<noteq> new \<longrightarrow> q \<noteq> buf \<longrightarrow> q \<noteq> (if rs = [] then parent else last rs) \<longrightarrow>
          heap s3 q = heap s q"
    and tgt: "bytes_at (heap s3) (if rs = [] then parent else last rs) = None"
    and c: "create_leaf s parent key count value =
       (case exec (create_leaf_value new buf count value) s3 of
          Inl e \<Rightarrow> Some (Inl e)
        | Inr s4 \<Rightarrow> Some (Inr (s4, if rs = [] then NULL else last rs)))"
    by blast
  from n obtain k where k: "unat count = Suc k" by (cases "unat count") auto
  have none: "bytes_at (heap s3) (unat value) = None"
  proof (cases "unat value = new \<or> unat value = buf \<or>
      unat value = (if rs = [] then parent else last rs)")
    case True
    with raw3 l3 tgt show ?thesis by (auto simp: bytes_at_def)
  next
    case False
    with frame have "heap s3 (unat value) = heap s (unat value)" by simp
    with src views_agree[of "heap s3" "unat value" "heap s"] show ?thesis by simp
  qed
  show ?thesis
  proof (cases "exec (create_leaf_value new buf count value) s3")
    case (Inl x)
    obtain e t where x: "x = (e, t)" by (cases x)
    from Inl x exec_value_block_split[OF raw3 fresh(2) l3 fresh(1) fresh(3)[symmetric], of "value"]
    have "e = Fault"
      by (auto simp: set_l_size_def split: sum.splits
          dest: strncpy_value_error upd_leaf_error)
    with c Inl x show ?thesis by simp
  next
    case (Inr s4)
    from exec_value_block_src[OF raw3 fresh(2) l3 fresh(1) fresh(3)[symmetric] Inr] none k
    show ?thesis by simp
  qed
qed

text \<open>
  C1 is about a call with the key \<open>"k1"\<close>, the length 3 and the value bytes 1, 2, 3.
  The parameter \<open>value\<close> is a \<open>uint8_t\<close>, so a caller can pass one byte only;
  \<open>create_leaf\<close> casts it to a pointer and copies from that address. With the byte 1,
  on the freshly initialised root with both allocations succeeding, the copy reads the
  address 1, where nothing lives: a fault. So does the call that \<open>main\<close> itself makes
  after its \<open>create_node\<close>, with the key \<open>"sample_key"\<close>, the length 10 and the
  value 200.
\<close>

theorem value_read_at_address:
  "failure (create_leaf (root_init [2000, 2001]) root_addr [107, 49, 0] 3 1) = Some Fault \<and>
   (\<exists>sn. create_node (root_init [2000, 3000, 3001]) root_addr (replicate 256 0) = Inr (sn, 2000) \<and>
      failure (create_leaf sn 2000 [115, 97, 109, 112, 108, 101, 95, 107, 101, 121, 0] 10 200)
        = Some Fault)"
proof -
  let ?s = "root_init [2000, 2001]"
  have pn: "node_at (heap ?s) root_addr = Some root_node" by (rule root_init_views)
  have ch0: "chain (heap ?s) (n_east root_node) []" by (simp add: root_node_def)
  have A: "failure (create_leaf ?s root_addr [107, 49, 0] 3 1) = Some Fault"
    by (rule create_leaf_unreadable_value[OF pn ch0, where new = 2000 and buf = 2001
          and rest = "[]"])
       (simp_all add: root_init_def root_addr_def strncpy_bytes_terminated bytes_at_def)
  let ?t = "root_init [2000, 3000, 3001]"
  have pn': "node_at (heap ?t) root_addr = Some root_node" by (rule root_init_views)
  have "snd (malloc ?t sizeof_node) \<noteq> NULL"
    by (simp add: malloc_root_init root_addr_def)
  from create_node_total[OF pn' this, of "replicate 256 0"] obtain sn r where
    c: "create_node ?t root_addr (replicate 256 0) = Inr (sn, r)" and r: "r \<noteq> NULL"
    by (auto simp: cstring_def)
  from create_node_success[OF c r pn'] obtain str where rv: "r = 2000"
    and sn: "sn = ?t\<lparr>heap := (heap ?t)(root_addr \<mapsto> ONode (root_node\<lparr>n_west := 2000\<rparr>),
                 2000 \<mapsto> ONode \<lparr>n_north = root_addr, n_west = NULL, n_east = NULL,
                     n_path = take 255 str @ 0 # replicate (255 - min (length str) 255) 0,
                     n_tag = TagNode\<rparr>), offers := [3000, 3001]\<rparr>"
    by (auto simp: root_init_def)
  let ?n = "\<lparr>n_north = root_addr, n_west = NULL, n_east = NULL,
                     n_path = take 255 str @ 0 # replicate (255 - min (length str) 255) 0,
                     n_tag = TagNode\<rparr>"
  have n2: "node_at (heap sn) 2000 = Some ?n" by (simp add: sn)
  have ch2: "chain (heap sn) (n_east ?n) []" by simp
  have B: "failure (create_leaf sn 2000 [115, 97, 109, 112, 108, 101, 95, 107, 101, 121, 0] 10 200)
        = Some Fault"
    by (rule create_leaf_unreadable_value[OF n2 ch2, where new = 3000 and buf = 3001
          and rest = "[]"])
       (simp_all add: sn root_init_def root_addr_def strncpy_bytes_terminated bytes_at_def)
  from A B c rv show ?thesis by blast
qed

section \<open>The order of linking and tagging\<close>

lemma trace_exec:
  "exec cs s = Inr s' \<Longrightarrow> length (trace cs s) = length cs \<and> (cs \<noteq> [] \<longrightarrow> last (trace cs s) = s')"
proof (induction cs arbitrary: s)
  case Nil
  then show ?case by simp
next
  case (Cons c cs)
  then obtain u where u: "c s = Inr u" "exec cs u = Inr s'" by (auto split: sum.splits)
  from Cons.IH[OF u(2)] u show ?case by (cases cs) auto
qed

lemma raw_views:
  "h p = Some (Raw n) \<Longrightarrow> node_at h p = None \<and> leaf_at h p = None \<and> bytes_at h p = None"
  by (simp add: node_at_def leaf_at_def bytes_at_def)

lemma trace_node_body:
  assumes "heap s1 node = Some (Raw sizeof_node)" "node \<noteq> NULL"
    "node_at (heap s1) parent = Some pn" "parent \<noteq> node"
  shows "child_link parent (trace (create_node_body parent node path) s1 ! 1) = Some node"
    "node_tag node (trace (create_node_body parent node path) s1 ! 1) = Some 0"
    "node_tag node (trace (create_node_body parent node path) s1 ! 2) = Some TagNode"
  using assms node_at_heap[OF assms(3)]
  by (simp_all add: create_node_body_def zero_def obj_size_def upd_node_def
      set_n_west_def set_n_tag_def set_n_north_def set_n_east_def zero_node_def
      child_link_def node_tag_def)

lemma trace_leaf_link_first:
  assumes "heap s1 new = Some (Raw sizeof_leaf)" "new \<noteq> NULL"
    "node_at (heap s1) parent = Some pn" "parent \<noteq> new"
  shows "leaf_chain_head parent (trace (create_leaf_link parent NULL new key) s1 ! 1) = Some new"
    "leaf_tag new (trace (create_leaf_link parent NULL new key) s1 ! 1) = None"
    "leaf_chain_head parent (trace (create_leaf_link parent NULL new key) s1 ! 2) = Some new"
    "leaf_tag new (trace (create_leaf_link parent NULL new key) s1 ! 2) = Some 0"
    "leaf_tag new (trace (create_leaf_link parent NULL new key) s1 ! 3) = Some TagLeaf"
  using assms node_at_heap[OF assms(3)] raw_views[of "heap s1" new sizeof_leaf]
  by (simp_all add: create_leaf_link_def assert_new_leaf_def zero_def obj_size_def
      upd_node_def upd_leaf_def set_n_east_def set_l_tag_def set_l_west_def zero_leaf_def
      leaf_chain_head_def leaf_tag_def)

lemma trace_leaf_link_next:
  assumes "heap s1 new = Some (Raw sizeof_leaf)" "new \<noteq> NULL"
    "leaf_at (heap s1) leaf = Some old" "leaf \<noteq> new"
  shows "sibling_link leaf (trace (create_leaf_link parent leaf new key) s1 ! 1) = Some new"
    "leaf_tag new (trace (create_leaf_link parent leaf new key) s1 ! 1) = None"
    "sibling_link leaf (trace (create_leaf_link parent leaf new key) s1 ! 2) = Some new"
    "leaf_tag new (trace (create_leaf_link parent leaf new key) s1 ! 2) = Some 0"
    "leaf_tag new (trace (create_leaf_link parent leaf new key) s1 ! 3) = Some TagLeaf"
  using assms leaf_at_heap[OF assms(3)] raw_views[of "heap s1" new sizeof_leaf]
  by (simp_all add: create_leaf_link_def assert_new_leaf_def zero_def obj_size_def
      upd_node_def upd_leaf_def set_l_east_def set_l_tag_def set_l_west_def zero_leaf_def
      sibling_link_def leaf_tag_def)


lemma create_node_trace:
  assumes "create_node s parent path = Inr (sn, node)" "node \<noteq> NULL"
    "node_at (heap s) parent = Some pn"
  shows "length (trace (create_node_body parent node path) (fst (malloc s sizeof_node))) = 6"
    "last (trace (create_node_body parent node path) (fst (malloc s sizeof_node))) = sn"
    "child_link parent (trace (create_node_body parent node path)
        (fst (malloc s sizeof_node)) ! 1) = Some node"
    "node_tag node (trace (create_node_body parent node path)
        (fst (malloc s sizeof_node)) ! 1) = Some 0"
    "node_tag node (trace (create_node_body parent node path)
        (fst (malloc s sizeof_node)) ! 2) = Some TagNode"
proof -
  from assms(1) have p: "parent \<noteq> NULL" by (auto simp: create_node_def split: if_splits)
  obtain s1 a where m: "malloc s sizeof_node = (s1, a)" by (cases "malloc s sizeof_node")
  with assms(1,2) p have a: "a = node"
    and e: "exec (create_node_body parent node path) s1 = Inr sn"
    by (auto simp: create_node_def split: if_splits sum.splits)
  from malloc_cases[OF m] a assms(2) obtain rest where
    fresh: "heap s node = None"
    and s1: "s1 = s\<lparr>heap := (heap s)(node \<mapsto> Raw sizeof_node), offers := rest\<rparr>" by auto
  have ne: "parent \<noteq> node" using node_at_heap[OF assms(3)] fresh by auto
  have pn1: "node_at (heap s1) parent = Some pn" and raw: "heap s1 node = Some (Raw sizeof_node)"
    using s1 ne assms(3) by simp_all
  from trace_exec[OF e] m
  show "length (trace (create_node_body parent node path) (fst (malloc s sizeof_node))) = 6"
    "last (trace (create_node_body parent node path) (fst (malloc s sizeof_node))) = sn"
    by (simp_all add: create_node_body_def)
  from trace_node_body[OF raw assms(2) pn1 ne, of path] m
  show "child_link parent (trace (create_node_body parent node path)
        (fst (malloc s sizeof_node)) ! 1) = Some node"
    "node_tag node (trace (create_node_body parent node path)
        (fst (malloc s sizeof_node)) ! 1) = Some 0"
    "node_tag node (trace (create_node_body parent node path)
        (fst (malloc s sizeof_node)) ! 2) = Some TagNode"
    by simp_all
qed

lemma create_leaf_trace:
  assumes "create_leaf s parent key count value = Some (Inr (sl, ret))"
  shows "\<exists>s0. find_last s parent = Some (Inr (s0, ret)) \<and>
     length (trace (create_leaf_link parent ret (next_offer s) key)
               (fst (malloc s0 sizeof_leaf))) = 6 \<and>
     (if ret = NULL
      then leaf_chain_head parent (trace (create_leaf_link parent ret (next_offer s) key)
               (fst (malloc s0 sizeof_leaf)) ! 1) = Some (next_offer s)
      else sibling_link ret (trace (create_leaf_link parent ret (next_offer s) key)
               (fst (malloc s0 sizeof_leaf)) ! 1) = Some (next_offer s)) \<and>
     leaf_tag (next_offer s) (trace (create_leaf_link parent ret (next_offer s) key)
               (fst (malloc s0 sizeof_leaf)) ! 1) = None \<and>
     (if ret = NULL
      then leaf_chain_head parent (trace (create_leaf_link parent ret (next_offer s) key)
               (fst (malloc s0 sizeof_leaf)) ! 2) = Some (next_offer s)
      else sibling_link ret (trace (create_leaf_link parent ret (next_offer s) key)
               (fst (malloc s0 sizeof_leaf)) ! 2) = Some (next_offer s)) \<and>
     leaf_tag (next_offer s) (trace (create_leaf_link parent ret (next_offer s) key)
               (fst (malloc s0 sizeof_leaf)) ! 2) = Some 0 \<and>
     leaf_tag (next_offer s) (trace (create_leaf_link parent ret (next_offer s) key)
               (fst (malloc s0 sizeof_leaf)) ! 3) = Some TagLeaf"
proof (rule create_leaf_run[OF assms])
  fix s0 pn rs old new buf rest kb s1 s2 s3
  assume r: "find_last_linear s parent = Some (Inr (s0, ret))"
    "heap s0 = heap s" "offers s0 = offers s"
    "node_at (heap s) parent = Some pn" "chain (heap s) (n_east pn) rs"
    "ret = (if rs = [] then NULL else last rs)"
    "rs \<noteq> [] \<Longrightarrow> leaf_at (heap s) (last rs) = Some old"
    "offers s = new # buf # rest"
    "new \<noteq> NULL" "heap s new = None"
    "parent \<noteq> new" "rs \<noteq> [] \<Longrightarrow> last rs \<noteq> new \<and> last rs \<noteq> buf"
    "strncpy_bytes key 127 = Some kb"
    and s1: "s1 = s0\<lparr>heap := (heap s0)(new \<mapsto> Raw sizeof_leaf), offers := buf # rest\<rparr>"
    and s2: "s2 = s1\<lparr>heap :=
       (if rs = [] then (heap s1)(parent \<mapsto> ONode (pn\<lparr>n_east := new\<rparr>))
        else (heap s1)(last rs \<mapsto> OLeaf (old\<lparr>l_east := new\<rparr>)))
       (new \<mapsto> OLeaf \<lparr>l_west = (if rs = [] then parent else last rs), l_east = NULL,
                       l_key = kb @ [0], l_value = NULL, l_size = 0, l_tag = TagLeaf\<rparr>)\<rparr>"
  have no: "next_offer s = new" using r(8) by simp
  have m1: "malloc s0 sizeof_leaf = (s1, new)" using r s1 by (simp add: malloc_def)
  have raw1: "heap s1 new = Some (Raw sizeof_leaf)" using s1 by simp
  have pn1: "node_at (heap s1) parent = Some pn" using s1 r by simp
  have fl: "find_last s parent = Some (Inr (s0, ret))" using r(1) by (simp add: find_last_def)
  show ?thesis
  proof (cases "rs = []")
    case True
    then have ret: "ret = NULL" using r(6) by simp
    have e1: "exec (create_leaf_link parent NULL new key) s1 = Inr s2"
      using exec_link_first[OF raw1 r(9) pn1 r(11), of key s2] r(13) s2 True by simp
    from trace_exec[OF e1] trace_leaf_link_first[OF raw1 r(9) pn1 r(11), of key] fl ret no m1
    show ?thesis by (simp add: create_leaf_link_def)
  next
    case False
    then have ret: "ret = last rs" "ret \<noteq> NULL"
      using r(6) chain_leaf[OF r(5), of "last rs"] by simp_all
    have old1: "leaf_at (heap s1) ret = Some old" using s1 r(7)[OF False] r(12)[OF False] r(2) ret
      by simp
    have rn: "ret \<noteq> new" using r(12)[OF False] ret by simp
    have e1: "exec (create_leaf_link parent ret new key) s1 = Inr s2"
      using exec_link_next[OF raw1 r(9) old1 rn, of parent key s2] r(13) s2 False ret by simp
    from trace_exec[OF e1] trace_leaf_link_next[OF raw1 r(9) old1 rn, of parent key] fl ret no m1
    show ?thesis by (simp add: create_leaf_link_def)
  qed
qed

lemma node_body_run:
  assumes "heap s1 node = Some (Raw sizeof_node)" "node \<noteq> NULL"
    "node_at (heap s1) parent = Some pn" "parent \<noteq> node"
  shows "5 \<le> length (trace (create_node_body parent node path) s1)"
    "\<exists>t. (exec (create_node_body parent node path) s1 = Inr t \<or>
          exec (create_node_body parent node path) s1 = Inl (Fault, t)) \<and>
         child_link parent t = Some node \<and> node_tag node t = Some TagNode"
  using assms node_at_heap[OF assms(3)]
  by (auto simp add: create_node_body_def stmt_defs zero_node_def child_link_def node_tag_def
      split: option.splits)

lemma leaf_link_run_first:
  assumes "heap s1 new = Some (Raw sizeof_leaf)" "new \<noteq> NULL"
    "node_at (heap s1) parent = Some pn" "parent \<noteq> new"
  shows "5 \<le> length (trace (create_leaf_link parent NULL new key) s1)"
    "\<exists>t. (exec (create_leaf_link parent NULL new key) s1 = Inr t \<or>
          exec (create_leaf_link parent NULL new key) s1 = Inl (Fault, t)) \<and>
         heap t parent = Some (ONode (pn\<lparr>n_east := new\<rparr>)) \<and>
         (\<exists>l. heap t new = Some (OLeaf l) \<and> l_tag l = TagLeaf)"
  using assms node_at_heap[OF assms(3)] raw_views[of "heap s1" new sizeof_leaf]
  by (auto simp add: create_leaf_link_def stmt_defs zero_leaf_def
      split: option.splits)

lemma leaf_link_run_next:
  assumes "heap s1 new = Some (Raw sizeof_leaf)" "new \<noteq> NULL"
    "leaf_at (heap s1) leaf = Some old" "leaf \<noteq> new"
  shows "5 \<le> length (trace (create_leaf_link parent leaf new key) s1)"
    "\<exists>t. (exec (create_leaf_link parent leaf new key) s1 = Inr t \<or>
          exec (create_leaf_link parent leaf new key) s1 = Inl (Fault, t)) \<and>
         heap t leaf = Some (OLeaf (old\<lparr>l_east := new\<rparr>)) \<and>
         (\<exists>l. heap t new = Some (OLeaf l) \<and> l_tag l = TagLeaf)"
  using assms leaf_at_heap[OF assms(3)] raw_views[of "heap s1" new sizeof_leaf]
  by (auto simp add: create_leaf_link_def stmt_defs zero_leaf_def
      split: option.splits)

lemma value_block_frame:
  assumes "heap s2 new = Some (OLeaf l)" "new \<noteq> NULL" "malloc s2 (unat count) = (s3, buf)"
  shows "\<exists>t. (exec (create_leaf_value new buf count value) s3 = Inr t \<or>
          (\<exists>e. exec (create_leaf_value new buf count value) s3 = Inl (e, t))) \<and>
      (\<exists>l'. heap t new = Some (OLeaf l') \<and> l_tag l' = l_tag l) \<and>
      (\<forall>q. q \<noteq> new \<longrightarrow> heap s2 q \<noteq> None \<longrightarrow> heap t q = heap s2 q)"
proof (cases "buf = NULL")
  case True
  with malloc_cases[OF assms(3)] have h: "heap s3 = heap s2" by simp
  with assms have "leaf_at (heap s3) new = Some l" by (simp add: leaf_at_def)
  with True h exec_value_block_null[of new count "value" s3] show ?thesis by auto
next
  case False
  with malloc_cases[OF assms(3)] obtain rest where
    fresh: "heap s2 buf = None"
    and s3: "s3 = s2\<lparr>heap := (heap s2)(buf \<mapsto> Raw (unat count)), offers := rest\<rparr>"
    by auto
  have bn: "buf \<noteq> new" using fresh assms(1) by auto
  have raw3: "heap s3 buf = Some (Raw (unat count))" using s3 by simp
  have l3: "heap s3 new = Some (OLeaf l)" using s3 assms(1) bn by simp
  let ?u = "s3\<lparr>heap := (heap s3)(new \<mapsto> OLeaf (l\<lparr>l_value := buf\<rparr>),
                        buf \<mapsto> Bytes (replicate (unat count) 0))\<rparr>"
  note sp = exec_value_block_split[OF raw3 False l3 assms(2) bn, of "value"]
  show ?thesis
  proof (cases "strncpy_value new value (unat count) ?u")
    case (Inl x)
    then have "x = (Fault, ?u)"
      by (auto simp: strncpy_value_def split: option.splits if_splits)
    with sp Inl have "exec (create_leaf_value new buf count value) s3 = Inl (Fault, ?u)" by simp
    moreover have "heap ?u new = Some (OLeaf (l\<lparr>l_value := buf\<rparr>))" using bn by simp
    moreover have "\<forall>q. q \<noteq> new \<longrightarrow> heap s2 q \<noteq> None \<longrightarrow> heap ?u q = heap s2 q"
      using s3 fresh by auto
    ultimately show ?thesis by (intro exI[of _ ?u]) auto
  next
    case (Inr u')
    then obtain vb where u': "u' = ?u\<lparr>heap := (heap ?u)(buf \<mapsto> Bytes vb)\<rparr>"
      using bn assms(2) False
      by (auto simp: strncpy_value_def leaf_at_def split: option.splits if_splits)
    let ?t = "u'\<lparr>heap := (heap u')(new \<mapsto> OLeaf (l\<lparr>l_value := buf, l_size := count\<rparr>))\<rparr>"
    have "set_l_size new count u' = Inr ?t"
      using u' bn assms(2) by (simp add: set_l_size_def upd_leaf_def leaf_at_def)
    with sp Inr have "exec (create_leaf_value new buf count value) s3 = Inr ?t" by simp
    moreover have "heap ?t new = Some (OLeaf (l\<lparr>l_value := buf, l_size := count\<rparr>))" by simp
    moreover have "\<forall>q. q \<noteq> new \<longrightarrow> heap s2 q \<noteq> None \<longrightarrow> heap ?t q = heap s2 q"
      using s3 fresh u' by auto
    ultimately show ?thesis by (intro exI[of _ ?t]) auto
  qed
qed

lemma create_node_order:
  assumes pn: "node_at (heap s) parent = Some pn"
    and m: "malloc s sizeof_node = (s1, node)" and n: "node \<noteq> NULL"
  shows "5 \<le> length (trace (create_node_body parent node path) s1)"
    "child_link parent (trace (create_node_body parent node path) s1 ! 1) = Some node"
    "node_tag node (trace (create_node_body parent node path) s1 ! 1) = Some 0"
    "node_tag node (trace (create_node_body parent node path) s1 ! 2) = Some TagNode"
    "\<exists>t. final_state (Some (create_node s parent path)) = Some t \<and>
         child_link parent t = Some node \<and> node_tag node t = Some TagNode"
proof -
  from malloc_cases[OF m] n obtain rest where
    fresh: "heap s node = None"
    and s1: "s1 = s\<lparr>heap := (heap s)(node \<mapsto> Raw sizeof_node), offers := rest\<rparr>" by auto
  have ne: "parent \<noteq> node" and p: "parent \<noteq> NULL" using node_at_heap[OF pn] fresh by auto
  have pn1: "node_at (heap s1) parent = Some pn" and raw: "heap s1 node = Some (Raw sizeof_node)"
    using s1 ne pn by simp_all
  show "5 \<le> length (trace (create_node_body parent node path) s1)"
    by (rule node_body_run(1)[OF raw n pn1 ne])
  show "child_link parent (trace (create_node_body parent node path) s1 ! 1) = Some node"
    "node_tag node (trace (create_node_body parent node path) s1 ! 1) = Some 0"
    "node_tag node (trace (create_node_body parent node path) s1 ! 2) = Some TagNode"
    by (rule trace_node_body[OF raw n pn1 ne])+
  from node_body_run(2)[OF raw n pn1 ne, of path] obtain t where
    t: "exec (create_node_body parent node path) s1 = Inr t \<or>
        exec (create_node_body parent node path) s1 = Inl (Fault, t)"
    and v: "child_link parent t = Some node" "node_tag node t = Some TagNode" by blast
  from t m n p have "final_state (Some (create_node s parent path)) = Some t"
    by (auto simp: create_node_def)
  with v show "\<exists>t. final_state (Some (create_node s parent path)) = Some t \<and>
         child_link parent t = Some node \<and> node_tag node t = Some TagNode" by blast
qed

lemma create_leaf_order:
  assumes p: "parent \<noteq> NULL" and fl: "find_last s parent = Some (Inr (s0, leaf))"
    and m: "malloc s0 sizeof_leaf = (s1, new)" and n: "new \<noteq> NULL"
  shows "5 \<le> length (trace (create_leaf_link parent leaf new key) s1) \<and>
    (if leaf = NULL
     then leaf_chain_head parent (trace (create_leaf_link parent leaf new key) s1 ! 1) = Some new
     else sibling_link leaf (trace (create_leaf_link parent leaf new key) s1 ! 1) = Some new) \<and>
    leaf_tag new (trace (create_leaf_link parent leaf new key) s1 ! 1) = None \<and>
    (if leaf = NULL
     then leaf_chain_head parent (trace (create_leaf_link parent leaf new key) s1 ! 2) = Some new
     else sibling_link leaf (trace (create_leaf_link parent leaf new key) s1 ! 2) = Some new) \<and>
    leaf_tag new (trace (create_leaf_link parent leaf new key) s1 ! 2) = Some 0 \<and>
    leaf_tag new (trace (create_leaf_link parent leaf new key) s1 ! 3) = Some TagLeaf \<and>
    (\<exists>t. final_state (create_leaf s parent key count value) = Some t \<and>
       (if leaf = NULL then leaf_chain_head parent t = Some new
        else sibling_link leaf t = Some new) \<and>
       leaf_tag new t = Some TagLeaf)"
proof -
  from fl find_last_linear_Inr[of s parent s0 leaf] obtain pn rs where
    pn: "node_at (heap s) parent = Some pn" and ch: "chain (heap s) (n_east pn) rs"
    and ret: "leaf = (if rs = [] then NULL else last rs)"
    and h0: "heap s0 = heap s" by (auto simp: find_last_def)
  from malloc_cases[OF m] n obtain rest where
    fresh: "heap s0 new = None"
    and s1: "s1 = s0\<lparr>heap := (heap s0)(new \<mapsto> Raw sizeof_leaf), offers := rest\<rparr>" by auto
  have raw1: "heap s1 new = Some (Raw sizeof_leaf)" using s1 by simp
  have pnew: "parent \<noteq> new" using node_at_heap[OF pn] fresh h0 by auto
  have pn1: "node_at (heap s1) parent = Some pn" using s1 pnew pn h0 by simp
  have fin: "\<exists>t'. final_state (create_leaf s parent key count value) = Some t' \<and>
      (\<exists>l'. heap t' new = Some (OLeaf l') \<and> l_tag l' = TagLeaf) \<and> heap t' q = heap t q"
    if t: "exec (create_leaf_link parent leaf new key) s1 = Inr t \<or>
           exec (create_leaf_link parent leaf new key) s1 = Inl (Fault, t)"
      and l: "heap t new = Some (OLeaf l)" "l_tag l = TagLeaf"
      and q: "q \<noteq> new" "heap t q \<noteq> None" for t l q
  proof (cases "exec (create_leaf_link parent leaf new key) s1")
    case (Inl x)
    with t have "exec (create_leaf_link parent leaf new key) s1 = Inl (Fault, t)" by simp
    with p fl m have "final_state (create_leaf s parent key count value) = Some t"
      by (simp add: create_leaf_def)
    with l show ?thesis by auto
  next
    case (Inr s2)
    with t have e1: "exec (create_leaf_link parent leaf new key) s1 = Inr t" by simp
    obtain s3 buf where m2: "malloc t (unat count) = (s3, buf)"
      by (cases "malloc t (unat count)")
    from value_block_frame[OF l(1) n m2, of "value"] obtain t' where
      r: "exec (create_leaf_value new buf count value) s3 = Inr t' \<or>
          (\<exists>e. exec (create_leaf_value new buf count value) s3 = Inl (e, t'))"
      and l': "\<exists>l'. heap t' new = Some (OLeaf l') \<and> l_tag l' = l_tag l"
      and fr: "\<forall>q. q \<noteq> new \<longrightarrow> heap t q \<noteq> None \<longrightarrow> heap t' q = heap t q" by blast
    from r p fl m e1 m2 have "final_state (create_leaf s parent key count value) = Some t'"
      by (auto simp: create_leaf_def)
    with l' l(2) fr q show ?thesis by auto
  qed
  show ?thesis
  proof (cases "rs = []")
    case True
    then have lf: "leaf = NULL" using ret by simp
    note T = trace_leaf_link_first[OF raw1 n pn1 pnew, of key]
    from leaf_link_run_first(2)[OF raw1 n pn1 pnew, of key] obtain t l where
      t: "exec (create_leaf_link parent NULL new key) s1 = Inr t \<or>
          exec (create_leaf_link parent NULL new key) s1 = Inl (Fault, t)"
      and hp: "heap t parent = Some (ONode (pn\<lparr>n_east := new\<rparr>))"
      and l: "heap t new = Some (OLeaf l)" "l_tag l = TagLeaf" by blast
    from fin[of t l parent] t l hp pnew lf obtain t' where
      f: "final_state (create_leaf s parent key count value) = Some t'"
      and l': "\<exists>l'. heap t' new = Some (OLeaf l') \<and> l_tag l' = TagLeaf"
      and hp': "heap t' parent = heap t parent" by auto
    have "leaf_chain_head parent t' = Some new" "leaf_tag new t' = Some TagLeaf"
      using hp' hp l' p n by (auto simp: leaf_chain_head_def leaf_tag_def node_at_def leaf_at_def)
    with f T leaf_link_run_first(1)[OF raw1 n pn1 pnew, of key] lf show ?thesis by auto
  next
    case False
    from chain_last[OF ch False] obtain old where old: "leaf_at (heap s) (last rs) = Some old"
      by blast
    have lf: "leaf = last rs" using ret False by simp
    have rn: "leaf \<noteq> new" "leaf \<noteq> NULL"
      using leaf_at_heap[OF old] fresh h0 lf by auto
    have old1: "leaf_at (heap s1) leaf = Some old" using s1 old rn h0 lf by simp
    note T = trace_leaf_link_next[OF raw1 n old1 rn(1), of parent key]
    from leaf_link_run_next(2)[OF raw1 n old1 rn(1), of parent key] obtain t l where
      t: "exec (create_leaf_link parent leaf new key) s1 = Inr t \<or>
          exec (create_leaf_link parent leaf new key) s1 = Inl (Fault, t)"
      and hp: "heap t leaf = Some (OLeaf (old\<lparr>l_east := new\<rparr>))"
      and l: "heap t new = Some (OLeaf l)" "l_tag l = TagLeaf" by blast
    from fin[of t l leaf] t l hp rn obtain t' where
      f: "final_state (create_leaf s parent key count value) = Some t'"
      and l': "\<exists>l'. heap t' new = Some (OLeaf l') \<and> l_tag l' = TagLeaf"
      and hp': "heap t' leaf = heap t leaf" by auto
    have "sibling_link leaf t' = Some new" "leaf_tag new t' = Some TagLeaf"
      using hp' hp l' rn n by (auto simp: sibling_link_def leaf_tag_def leaf_at_def)
    with f T leaf_link_run_next(1)[OF raw1 n old1 rn(1), of parent key] rn show ?thesis by auto
  qed
qed

lemma two_leaves_find_last:
  "find_last (two_leaves as) root_addr = Some (Inr (two_leaves as, 3000))"
  using find_last_linear_chain[OF two_leaves_views(1), of as "[2000, 3000]"]
    two_leaves_views(2)[of as]
  by (simp add: find_last_def)

lemma two_leaves_value_alloc_fails:
  "failure (create_leaf (two_leaves [4000]) root_addr [107, 49, 0] 3 1) = Some Assert_zero_ptr"
proof -
  let ?s = "two_leaves [4000]"
  have p: "root_addr \<noteq> NULL" by (simp add: root_addr_def)
  define s1 where "s1 = ?s\<lparr>heap := (heap ?s)(4000 \<mapsto> Raw sizeof_leaf), offers := []\<rparr>"
  have m1: "malloc ?s sizeof_leaf = (s1, 4000)"
    by (simp add: malloc_def two_leaves_def s1_def root_addr_def)
  have raw1: "heap s1 4000 = Some (Raw sizeof_leaf)" by (simp add: s1_def)
  have old1: "leaf_at (heap s1) 3000 = Some (plain_leaf 2000 NULL)"
    by (simp add: s1_def two_leaves_def)
  obtain kb where kb: "strncpy_bytes [107, 49, 0] 127 = Some kb"
    using strncpy_bytes_terminated[of "[107, 49, 0]" 127] by auto
  define s2 where "s2 = s1\<lparr>heap := (heap s1)(3000 \<mapsto> OLeaf (plain_leaf 2000 NULL\<lparr>l_east := 4000\<rparr>),
                  4000 \<mapsto> OLeaf \<lparr>l_west = 3000, l_east = NULL, l_key = kb @ [0],
                           l_value = NULL, l_size = 0, l_tag = TagLeaf\<rparr>)\<rparr>"
  have e1: "exec (create_leaf_link root_addr 3000 4000 [107, 49, 0]) s1 = Inr s2"
    using exec_link_next[OF raw1 _ old1, of root_addr "[107, 49, 0]" s2] kb
    by (simp add: s2_def)
  have m2: "snd (malloc s2 (unat (3 :: 16 word))) = NULL"
    by (simp add: malloc_def s1_def s2_def)
  from create_leaf_buf_null[OF p two_leaves_find_last m1 e1 m2, of 1]
  show ?thesis by auto
qed

lemma main_create_node:
  "\<exists>sn n. create_node (root_init [2000, 3000, 3001]) root_addr (replicate 256 0) = Inr (sn, 2000) \<and>
     node_at (heap sn) 2000 = Some n \<and> n_east n = NULL \<and> offers sn = [3000, 3001] \<and>
     heap sn 3000 = None \<and> heap sn 3001 = None \<and> bytes_at (heap sn) 200 = None"
proof -
  let ?t = "root_init [2000, 3000, 3001]"
  have pn': "node_at (heap ?t) root_addr = Some root_node" by (rule root_init_views)
  have "snd (malloc ?t sizeof_node) \<noteq> NULL"
    by (simp add: malloc_root_init root_addr_def)
  from create_node_total[OF pn' this, of "replicate 256 0"] obtain sn r where
    c: "create_node ?t root_addr (replicate 256 0) = Inr (sn, r)" and r: "r \<noteq> NULL"
    by (auto simp: cstring_def)
  from create_node_success[OF c r pn'] obtain str where rv: "r = 2000"
    and sn: "sn = ?t\<lparr>heap := (heap ?t)(root_addr \<mapsto> ONode (root_node\<lparr>n_west := 2000\<rparr>),
                 2000 \<mapsto> ONode \<lparr>n_north = root_addr, n_west = NULL, n_east = NULL,
                     n_path = take 255 str @ 0 # replicate (255 - min (length str) 255) 0,
                     n_tag = TagNode\<rparr>), offers := [3000, 3001]\<rparr>"
    by (auto simp: root_init_def)
  have "node_at (heap sn) 2000 = Some \<lparr>n_north = root_addr, n_west = NULL, n_east = NULL,
                     n_path = take 255 str @ 0 # replicate (255 - min (length str) 255) 0,
                     n_tag = TagNode\<rparr>" by (simp add: sn)
  moreover have "offers sn = [3000, 3001]" "heap sn 3000 = None" "heap sn 3001 = None"
    "bytes_at (heap sn) 200 = None"
    by (simp_all add: sn root_init_def root_addr_def bytes_at_def)
  ultimately show ?thesis using c rv by auto
qed

lemma tags_nonzero: "TagNode \<noteq> 0" "TagLeaf \<noteq> 0"
  by (simp_all add: TagNode_def TagLeaf_def)

text \<open>
  C3 says that the tag of a new entity is assigned before any reachable entity is made
  to point at it. Both functions link first. In \<open>create_node\<close> on the freshly
  initialised root, right after \<open>parent->west = node\<close> the root points at the node
  2000, whose tag is still 0. In \<open>create_leaf\<close>, after \<open>(*parent).east = new_leaf\<close>
  and the zero-fill, the root points at the record 2000, whose tag is still 0.
\<close>

theorem tag_before_link_counterexample:
  "create_node (root_init [2000]) root_addr [0] =
     Inr (last (trace (create_node_body root_addr 2000 [0])
                  (fst (malloc (root_init [2000]) sizeof_node))), 2000) \<and>
   child_link root_addr (trace (create_node_body root_addr 2000 [0])
                  (fst (malloc (root_init [2000]) sizeof_node)) ! 1) = Some 2000 \<and>
   node_tag 2000 (trace (create_node_body root_addr 2000 [0])
                  (fst (malloc (root_init [2000]) sizeof_node)) ! 1) = Some 0 \<and>
   TagNode \<noteq> 0 \<and>
   find_last (root_init [2000, 2001]) root_addr = Some (Inr (root_init [2000, 2001], NULL)) \<and>
   leaf_chain_head root_addr (trace (create_leaf_link root_addr NULL 2000 [107, 49, 0])
                  (fst (malloc (root_init [2000, 2001]) sizeof_leaf)) ! 2) = Some 2000 \<and>
   leaf_tag 2000 (trace (create_leaf_link root_addr NULL 2000 [107, 49, 0])
                  (fst (malloc (root_init [2000, 2001]) sizeof_leaf)) ! 2) = Some 0 \<and>
   TagLeaf \<noteq> 0"
proof -
  let ?s = "root_init [2000]"
  have pn: "node_at (heap ?s) root_addr = Some root_node" by (rule root_init_views)
  have "snd (malloc ?s sizeof_node) \<noteq> NULL"
    by (simp add: malloc_root_init root_addr_def)
  from create_node_total[OF pn this, of "[0]"] obtain sn r where
    c: "create_node ?s root_addr [0] = Inr (sn, r)" and r: "r \<noteq> NULL"
    by (auto simp: cstring_def)
  from create_node_success[OF c r pn] have rv: "r = 2000" by (auto simp: root_init_def)
  note N = create_node_trace[OF c r pn, unfolded rv]
  let ?t = "root_init [2000, 2001]"
  have pn': "node_at (heap ?t) root_addr = Some root_node" by (rule root_init_views)
  have ch0: "chain (heap ?t) (n_east root_node) []" by (simp add: root_node_def)
  have "\<exists>s'. create_leaf ?t root_addr [107, 49, 0] 0 0 =
      Some (Inr (s', if ([]::nat list) = [] then NULL else last []))"
    by (rule create_leaf_total[OF pn' ch0, where new = 2000 and buf = 2001 and rest = "[]"])
       (simp_all add: root_init_def root_addr_def strncpy_bytes_terminated)
  then obtain sl where d: "create_leaf ?t root_addr [107, 49, 0] 0 0 = Some (Inr (sl, NULL))"
    by auto
  have no: "next_offer ?t = 2000" by (simp add: next_offer_def root_init_def)
  note fl = root_init_find_last[of "[2000, 2001]"]
  from create_leaf_trace[OF d] fl no
  have L: "leaf_chain_head root_addr (trace (create_leaf_link root_addr NULL 2000 [107, 49, 0])
                  (fst (malloc ?t sizeof_leaf)) ! 2) = Some 2000"
    "leaf_tag 2000 (trace (create_leaf_link root_addr NULL 2000 [107, 49, 0])
                  (fst (malloc ?t sizeof_leaf)) ! 2) = Some 0"
    by auto
  from c rv N L fl tags_nonzero show ?thesis by simp
qed

text \<open>
  C3, amended. In every run of \<open>create_node\<close> with a container as parent in which the
  allocation of the node succeeds, whatever the path, the first five statements after the
  allocation complete; the child link of the parent is set to the new node while the tag
  of the node is still 0, and the next statement assigns the tag. In every run of
  \<open>create_leaf\<close> in which the scan of the chain returns and the allocation of the
  record succeeds, whatever the key, the length and the value, the first five statements
  after the allocation complete; the leaf chain head of the container (for an empty chain)
  or the sibling link of the previous tail is set to the new record before the record is
  zero-filled (it has no readable tag yet), the zero-fill makes its tag 0, and the next
  statement assigns the tag. Every such run ends, by returning or by aborting, in a state
  in which the newly linked entity carries its tag.
\<close>

theorem tag_after_link:
  "(node_at (heap s) parent = Some pn \<and> malloc s sizeof_node = (sa, node) \<and> node \<noteq> NULL \<longrightarrow>
      5 \<le> length (trace (create_node_body parent node path) sa) \<and>
      child_link parent (trace (create_node_body parent node path) sa ! 1) = Some node \<and>
      node_tag node (trace (create_node_body parent node path) sa ! 1) = Some 0 \<and>
      node_tag node (trace (create_node_body parent node path) sa ! 2) = Some TagNode \<and>
      (\<exists>t. final_state (Some (create_node s parent path)) = Some t \<and>
           child_link parent t = Some node \<and> node_tag node t = Some TagNode)) \<and>
   (parent \<noteq> NULL \<and> find_last s parent = Some (Inr (s0, leaf)) \<and>
    malloc s0 sizeof_leaf = (s1, new_leaf) \<and> new_leaf \<noteq> NULL \<longrightarrow>
      5 \<le> length (trace (create_leaf_link parent leaf new_leaf key) s1) \<and>
      (if leaf = NULL
       then leaf_chain_head parent (trace (create_leaf_link parent leaf new_leaf key) s1 ! 1)
              = Some new_leaf
       else sibling_link leaf (trace (create_leaf_link parent leaf new_leaf key) s1 ! 1)
              = Some new_leaf) \<and>
      leaf_tag new_leaf (trace (create_leaf_link parent leaf new_leaf key) s1 ! 1) = None \<and>
      (if leaf = NULL
       then leaf_chain_head parent (trace (create_leaf_link parent leaf new_leaf key) s1 ! 2)
              = Some new_leaf
       else sibling_link leaf (trace (create_leaf_link parent leaf new_leaf key) s1 ! 2)
              = Some new_leaf) \<and>
      leaf_tag new_leaf (trace (create_leaf_link parent leaf new_leaf key) s1 ! 2) = Some 0 \<and>
      leaf_tag new_leaf (trace (create_leaf_link parent leaf new_leaf key) s1 ! 3)
        = Some TagLeaf \<and>
      (\<exists>t. final_state (create_leaf s parent key count value) = Some t \<and>
           (if leaf = NULL then leaf_chain_head parent t = Some new_leaf
            else sibling_link leaf t = Some new_leaf) \<and>
           leaf_tag new_leaf t = Some TagLeaf))"
proof (intro conjI impI)
  assume a: "node_at (heap s) parent = Some pn \<and> malloc s sizeof_node = (sa, node) \<and>
    node \<noteq> NULL"
  then have pn: "node_at (heap s) parent = Some pn" and m: "malloc s sizeof_node = (sa, node)"
    and n: "node \<noteq> NULL" by simp_all
  note N = create_node_order[OF pn m n]
  show "5 \<le> length (trace (create_node_body parent node path) sa)" by (rule N)
  show "child_link parent (trace (create_node_body parent node path) sa ! 1) = Some node"
    by (rule N)
  show "node_tag node (trace (create_node_body parent node path) sa ! 1) = Some 0" by (rule N)
  show "node_tag node (trace (create_node_body parent node path) sa ! 2) = Some TagNode"
    by (rule N)
  show "\<exists>t. final_state (Some (create_node s parent path)) = Some t \<and>
           child_link parent t = Some node \<and> node_tag node t = Some TagNode" by (rule N)
next
  assume a: "parent \<noteq> NULL \<and> find_last s parent = Some (Inr (s0, leaf)) \<and>
    malloc s0 sizeof_leaf = (s1, new_leaf) \<and> new_leaf \<noteq> NULL"
  then have p: "parent \<noteq> NULL" and fl: "find_last s parent = Some (Inr (s0, leaf))"
    and m: "malloc s0 sizeof_leaf = (s1, new_leaf)" and n: "new_leaf \<noteq> NULL" by simp_all
  note L = create_leaf_order[OF p fl m n, of key count "value"]
  show "5 \<le> length (trace (create_leaf_link parent leaf new_leaf key) s1)"
    using L by blast
  show "if leaf = NULL
       then leaf_chain_head parent (trace (create_leaf_link parent leaf new_leaf key) s1 ! 1)
              = Some new_leaf
       else sibling_link leaf (trace (create_leaf_link parent leaf new_leaf key) s1 ! 1)
              = Some new_leaf"
    using L by blast
  show "leaf_tag new_leaf (trace (create_leaf_link parent leaf new_leaf key) s1 ! 1) = None"
    using L by blast
  show "if leaf = NULL
       then leaf_chain_head parent (trace (create_leaf_link parent leaf new_leaf key) s1 ! 2)
              = Some new_leaf
       else sibling_link leaf (trace (create_leaf_link parent leaf new_leaf key) s1 ! 2)
              = Some new_leaf"
    using L by blast
  show "leaf_tag new_leaf (trace (create_leaf_link parent leaf new_leaf key) s1 ! 2) = Some 0"
    using L by blast
  show "leaf_tag new_leaf (trace (create_leaf_link parent leaf new_leaf key) s1 ! 3)
        = Some TagLeaf"
    using L by blast
  show "\<exists>t. final_state (create_leaf s parent key count value) = Some t \<and>
           (if leaf = NULL then leaf_chain_head parent t = Some new_leaf
            else sibling_link leaf t = Some new_leaf) \<and>
           leaf_tag new_leaf t = Some TagLeaf"
    using L by blast
qed

text \<open>
  \<open>create_node\<close> on the freshly initialised root; \<open>create_leaf\<close> with the length 3
  on the root with its empty chain, which ends in a fault at the copy of the value, and on
  the container with two records with an allocator that fails at the value buffer, which
  aborts on the assertion of \<open>zero\<close>; and the call that \<open>main\<close> itself makes after
  its \<open>create_node\<close>.
\<close>

theorem tag_after_link_witness:
  "\<exists>sa ta s1 t s1' t' sn s0 s1'' t''.
     node_at (heap (root_init [2000])) root_addr = Some root_node \<and>
     malloc (root_init [2000]) sizeof_node = (sa, 2000) \<and>
     final_state (Some (create_node (root_init [2000]) root_addr [0])) = Some ta \<and>
     child_link root_addr ta = Some 2000 \<and> node_tag 2000 ta = Some TagNode \<and>
     root_addr \<noteq> NULL \<and>
     find_last (root_init [2000, 2001]) root_addr = Some (Inr (root_init [2000, 2001], NULL)) \<and>
     malloc (root_init [2000, 2001]) sizeof_leaf = (s1, 2000) \<and>
     failure (create_leaf (root_init [2000, 2001]) root_addr [107, 49, 0] 3 1) = Some Fault \<and>
     final_state (create_leaf (root_init [2000, 2001]) root_addr [107, 49, 0] 3 1) = Some t \<and>
     leaf_chain_head root_addr t = Some 2000 \<and> leaf_tag 2000 t = Some TagLeaf \<and>
     find_last (two_leaves [4000]) root_addr = Some (Inr (two_leaves [4000], 3000)) \<and>
     malloc (two_leaves [4000]) sizeof_leaf = (s1', 4000) \<and>
     failure (create_leaf (two_leaves [4000]) root_addr [107, 49, 0] 3 1)
       = Some Assert_zero_ptr \<and>
     final_state (create_leaf (two_leaves [4000]) root_addr [107, 49, 0] 3 1) = Some t' \<and>
     sibling_link 3000 t' = Some 4000 \<and> leaf_tag 4000 t' = Some TagLeaf \<and>
     create_node (root_init [2000, 3000, 3001]) root_addr (replicate 256 0) = Inr (sn, 2000) \<and>
     find_last sn 2000 = Some (Inr (s0, NULL)) \<and>
     malloc s0 sizeof_leaf = (s1'', 3000) \<and>
     failure (create_leaf sn 2000 [115, 97, 109, 112, 108, 101, 95, 107, 101, 121, 0] 10 200)
       = Some Fault \<and>
     final_state (create_leaf sn 2000 [115, 97, 109, 112, 108, 101, 95, 107, 101, 121, 0] 10 200)
       = Some t'' \<and>
     leaf_chain_head 2000 t'' = Some 3000 \<and> leaf_tag 3000 t'' = Some TagLeaf"
proof -
  have p: "root_addr \<noteq> NULL" by (simp add: root_addr_def)
  have k: "(2000::nat) \<noteq> NULL" "(3000::nat) \<noteq> NULL" "(4000::nat) \<noteq> NULL" by simp_all
  have pnA: "node_at (heap (root_init [2000])) root_addr = Some root_node"
    by (rule root_init_views)
  obtain sa where mA: "malloc (root_init [2000]) sizeof_node = (sa, 2000)"
    by (simp add: malloc_def root_init_def root_addr_def)
  from tag_after_link[of "root_init [2000]" root_addr root_node sa 2000 "[0]", THEN conjunct1] pnA mA k
  obtain ta where A: "final_state (Some (create_node (root_init [2000]) root_addr [0])) = Some ta"
    "child_link root_addr ta = Some 2000" "node_tag 2000 ta = Some TagNode" by auto
  let ?s = "root_init [2000, 2001]"
  have pn: "node_at (heap ?s) root_addr = Some root_node" by (rule root_init_views)
  have ch0: "chain (heap ?s) (n_east root_node) []" by (simp add: root_node_def)
  have fB: "failure (create_leaf ?s root_addr [107, 49, 0] 3 1) = Some Fault"
    by (rule create_leaf_unreadable_value[OF pn ch0, where new = 2000 and buf = 2001
          and rest = "[]"])
       (simp_all add: root_init_def root_addr_def strncpy_bytes_terminated bytes_at_def)
  note flB = root_init_find_last[of "[2000, 2001]"]
  obtain s1 where mB: "malloc ?s sizeof_leaf = (s1, 2000)"
    by (simp add: malloc_def root_init_def root_addr_def)
  from tag_after_link[of ?s root_addr _ _ _ _ ?s NULL s1 2000 "[107, 49, 0]" 3 1,
      THEN conjunct2]
    p flB mB k
  obtain t where B: "final_state (create_leaf ?s root_addr [107, 49, 0] 3 1) = Some t"
    "leaf_chain_head root_addr t = Some 2000" "leaf_tag 2000 t = Some TagLeaf" by auto
  let ?u = "two_leaves [4000]"
  note flC = two_leaves_find_last[of "[4000]"]
  note fC = two_leaves_value_alloc_fails
  obtain s1' where mC: "malloc ?u sizeof_leaf = (s1', 4000)"
    by (simp add: malloc_def two_leaves_def root_addr_def)
  from tag_after_link[of ?u root_addr _ _ _ _ ?u 3000 s1' 4000 "[107, 49, 0]" 3 1,
      THEN conjunct2]
    p flC mC k
  obtain t' where C: "final_state (create_leaf ?u root_addr [107, 49, 0] 3 1) = Some t'"
    "sibling_link 3000 t' = Some 4000" "leaf_tag 4000 t' = Some TagLeaf" by auto
  from main_create_node obtain sn n where
    c: "create_node (root_init [2000, 3000, 3001]) root_addr (replicate 256 0) = Inr (sn, 2000)"
    and n2: "node_at (heap sn) 2000 = Some n" and ne: "n_east n = NULL"
    and off: "offers sn = [3000, 3001]" and fr: "heap sn 3000 = None" "heap sn 3001 = None"
    and src: "bytes_at (heap sn) 200 = None" by blast
  have ch2: "chain (heap sn) (n_east n) []" using ne by simp
  let ?k = "[115, 97, 109, 112, 108, 101, 95, 107, 101, 121, 0] :: byte list"
  have fD: "failure (create_leaf sn 2000 ?k 10 200) = Some Fault"
    by (rule create_leaf_unreadable_value[OF n2 ch2 off _ _ _ fr])
       (simp_all add: strncpy_bytes_terminated src)
  from find_last_linear_chain[OF n2 ch2]
  have flD: "find_last sn 2000 = Some (Inr (sn\<lparr>errno := NoError\<rparr>, NULL))"
    by (simp add: find_last_def reterr_def)
  obtain s1'' where mD: "malloc (sn\<lparr>errno := NoError\<rparr>) sizeof_leaf = (s1'', 3000)"
    using off fr by (simp add: malloc_def)
  from tag_after_link[of sn 2000 _ _ _ _ "sn\<lparr>errno := NoError\<rparr>" NULL s1'' 3000 ?k 10 200,
      THEN conjunct2] flD mD k
  obtain t'' where D: "final_state (create_leaf sn 2000 ?k 10 200) = Some t''"
    "leaf_chain_head 2000 t'' = Some 3000" "leaf_tag 3000 t'' = Some TagLeaf" by auto
  from pnA mA A p flB mB fB B flC mC fC C c flD mD fD D show ?thesis by blast
qed

end
